theory Spec2Isabelle
  imports Complex_Main
begin

section \<open>Values, exceptions and small numpy helpers\<close>

text \<open>
  The PPG pipeline of \<^verbatim>\<open>src/app.py\<close> (lines 535-638).  numpy's float64 samples are
  modelled as \<^typ>\<open>real\<close> (rounding is not modelled); a feature slot can moreover hold
  the missing sentinel \<^verbatim>\<open>np.nan\<close>.  Peak indices are numpy integers and are kept
  exact.  A raised Python exception is a value \<open>Inl e\<close>; each exception carries the
  text that \<^verbatim>\<open>str(e)\<close> returns.  \<open>HTTPException\<close> stands for what werkzeug raises
  when \<^verbatim>\<open>request.json\<close> cannot be read, \<open>ModelError\<close> for what a regressor raises.
\<close>

datatype py_exn =
    ValueError string
  | IndexError string
  | ZeroDivisionError string
  | AttributeError string
  | HTTPException string
  | ModelError string

fun exn_str :: "py_exn \<Rightarrow> string" where
  "exn_str (ValueError m) = m"
| "exn_str (IndexError m) = m"
| "exn_str (ZeroDivisionError m) = m"
| "exn_str (AttributeError m) = m"
| "exn_str (HTTPException m) = m"
| "exn_str (ModelError m) = m"

datatype fval = NaN | Val real | PosInf | NegInf

fun is_nan :: "fval \<Rightarrow> bool" where
  "is_nan NaN = True"
| "is_nan v = False"

fun is_inf :: "fval \<Rightarrow> bool" where
  "is_inf PosInf = True"
| "is_inf NegInf = True"
| "is_inf v = False"

definition e_bind :: "py_exn + 'a \<Rightarrow> ('a \<Rightarrow> py_exn + 'b) \<Rightarrow> py_exn + 'b" where
  "e_bind m f = (case m of Inl e \<Rightarrow> Inl e | Inr x \<Rightarrow> f x)"

fun e_mapM :: "('a \<Rightarrow> py_exn + 'b) \<Rightarrow> 'a list \<Rightarrow> py_exn + 'b list" where
  "e_mapM f [] = Inr []"
| "e_mapM f (x # xs) =
     (case f x of
        Inl e \<Rightarrow> Inl e
      | Inr y \<Rightarrow> (case e_mapM f xs of Inl e \<Rightarrow> Inl e | Inr ys \<Rightarrow> Inr (y # ys)))"

text \<open>\<^verbatim>\<open>int(x)\<close> on a float truncates towards zero.\<close>

definition py_int :: "real \<Rightarrow> int" where
  "py_int x = (if 0 \<le> x then \<lfloor>x\<rfloor> else \<lceil>x\<rceil>)"

text \<open>The decimal digits of a natural number, as \<^verbatim>\<open>"%d" % n\<close> prints them.\<close>

function str_nat :: "nat \<Rightarrow> string" where
  "str_nat n = (if n < 10 then [''0123456789'' ! n]
                else str_nat (n div 10) @ [''0123456789'' ! (n mod 10)])"
  by pat_completeness auto
termination
  by (relation "measure id") auto

declare str_nat.simps [simp del]

text \<open>\<^verbatim>\<open>np.mean\<close>, \<^verbatim>\<open>np.min\<close>, \<^verbatim>\<open>np.max\<close> and \<^verbatim>\<open>np.diff\<close> on a 1-D array; the
  callers below guard the empty array, on which numpy's min and max raise.\<close>

definition np_mean :: "real list \<Rightarrow> real" where
  "np_mean xs = sum_list xs / real (length xs)"

definition np_min :: "real list \<Rightarrow> real" where
  "np_min xs = fold min (tl xs) (hd xs)"

definition np_max :: "real list \<Rightarrow> real" where
  "np_max xs = fold max (tl xs) (hd xs)"

fun np_diff :: "real list \<Rightarrow> real list" where
  "np_diff (x # y # ys) = (y - x) # np_diff (y # ys)"
| "np_diff xs = []"

definition np_std :: "real list \<Rightarrow> real" where
  "np_std xs = sqrt (np_mean (map (\<lambda>x. (x - np_mean xs)\<^sup>2) xs))"

section \<open>\<^verbatim>\<open>scipy.signal.find_peaks(x, distance=d)\<close>\<close>

text \<open>
  The library routine as the pipeline calls it: only \<^verbatim>\<open>distance\<close> is given.  It
  rejects \<^verbatim>\<open>distance < 1\<close>, collects the local maxima (a flat top counts once, at its
  middle; the first and the last sample never count), and then drops every peak that
  lies closer than \<^verbatim>\<open>distance\<close> to a higher one that was kept.

  \<open>look_ahead\<close> is the inner loop "find next sample that is unequal to x[i]".
\<close>

function look_ahead :: "real list \<Rightarrow> nat \<Rightarrow> nat \<Rightarrow> nat" where
  "look_ahead x i i_ahead =
     (if i_ahead < length x - 1 \<and> x ! i_ahead = x ! i
      then look_ahead x i (i_ahead + 1) else i_ahead)"
  by pat_completeness auto
termination
  by (relation "measure (\<lambda>(x, i, i_ahead). length x - 1 - i_ahead)") auto

declare look_ahead.simps [simp del]

lemma look_ahead_ge: "i_ahead \<le> look_ahead x i i_ahead"
proof (induction x i i_ahead rule: look_ahead.induct)
  case (1 x i i_ahead)
  show ?case
  proof (cases "i_ahead < length x - 1 \<and> x ! i_ahead = x ! i")
    case True
    have "look_ahead x i i_ahead = look_ahead x i (i_ahead + 1)"
      using True by (subst look_ahead.simps) simp
    moreover have "i_ahead + 1 \<le> look_ahead x i (i_ahead + 1)"
      using 1 True by blast
    ultimately show ?thesis by linarith
  next
    case False
    have "look_ahead x i i_ahead = i_ahead"
      using False by (subst look_ahead.simps) auto
    then show ?thesis by simp
  qed
qed

function local_maxima_from :: "real list \<Rightarrow> nat \<Rightarrow> nat list" where
  "local_maxima_from x i =
     (if i < length x - 1 then
        (if x ! (i - 1) < x ! i then
           (let i_ahead = look_ahead x i (i + 1) in
            if x ! i_ahead < x ! i
            then ((i + (i_ahead - 1)) div 2) # local_maxima_from x (i_ahead + 1)
            else local_maxima_from x (i + 1))
         else local_maxima_from x (i + 1))
      else [])"
  by pat_completeness auto
termination
proof (relation "measure (\<lambda>(x, i). length x - 1 - i)", goal_cases)
  case 1
  show ?case by simp
next
  case (2 x i i_ahead)
  have "i + 1 \<le> look_ahead x i (i + 1)" by (rule look_ahead_ge)
  with 2 show ?case by simp
next
  case (3 x i i_ahead)
  then show ?case by simp
next
  case (4 x i)
  then show ?case by simp
qed

declare local_maxima_from.simps [simp del]

definition local_maxima_1d :: "real list \<Rightarrow> nat list" where
  "local_maxima_1d x = local_maxima_from x 1"

text \<open>
  \<^verbatim>\<open>_select_by_peak_distance(peaks, priority, distance)\<close>: peaks are visited from the
  highest priority down; a visited peak that is still kept deletes its neighbours on
  both sides that are closer than \<^verbatim>\<open>distance\<close>.  \<open>mark_left peaks j d (Suc k)\<close> is
  the first while loop standing at index \<open>k\<close>, \<open>mark_right\<close> the second.
\<close>

primrec mark_left :: "nat list \<Rightarrow> nat \<Rightarrow> int \<Rightarrow> nat \<Rightarrow> bool list \<Rightarrow> bool list" where
  "mark_left peaks j d 0 keep = keep"
| "mark_left peaks j d (Suc k) keep =
     (if int (peaks ! j) - int (peaks ! k) < d
      then mark_left peaks j d k (keep[k := False]) else keep)"

function mark_right :: "nat list \<Rightarrow> nat \<Rightarrow> int \<Rightarrow> nat \<Rightarrow> bool list \<Rightarrow> bool list" where
  "mark_right peaks j d k keep =
     (if k < length peaks \<and> int (peaks ! k) - int (peaks ! j) < d
      then mark_right peaks j d (k + 1) (keep[k := False]) else keep)"
  by pat_completeness auto
termination
  by (relation "measure (\<lambda>(peaks, j, d, k, keep). length peaks - k)") auto

declare mark_right.simps [simp del]

definition select_step :: "nat list \<Rightarrow> int \<Rightarrow> nat \<Rightarrow> bool list \<Rightarrow> bool list" where
  "select_step peaks d j keep =
     (if \<not> keep ! j then keep
      else mark_right peaks j d (j + 1) (mark_left peaks j d j keep))"

text \<open>\<^verbatim>\<open>np.argsort(priority)\<close>; equal priorities are ordered here as a stable sort does.
  numpy's default sort is not stable and leaves the order of equal priorities open, so
  that on a waveform with peaks of equal height closer than the distance the detector
  may keep other peaks than this function does.  For pairwise different priorities
  there is one order only (\<open>np_argsort_unique\<close>).  Nothing proved below depends on the
  order chosen: the facts about the kept peaks relate them to whatever the detector
  returns, and the spacing (\<open>find_peaks_apart\<close>) holds for every order.  The concrete
  waveforms used below have no two peaks of equal height closer than the distance.\<close>

definition np_argsort :: "real list \<Rightarrow> nat list" where
  "np_argsort priority = sort_key (\<lambda>i. priority ! i) [0..<length priority]"

definition select_by_peak_distance :: "nat list \<Rightarrow> real list \<Rightarrow> int \<Rightarrow> bool list" where
  "select_by_peak_distance peaks priority d =
     fold (select_step peaks d) (rev (np_argsort priority)) (replicate (length peaks) True)"

definition find_peaks :: "real list \<Rightarrow> int \<Rightarrow> py_exn + nat list" where
  "find_peaks x distance =
     (if distance < 1 then Inl (ValueError ''`distance` must be greater or equal to 1'')
      else
        (let peaks = local_maxima_1d x;
             keep = select_by_peak_distance peaks (map (\<lambda>p. x ! p) peaks) distance
         in Inr (map fst (filter snd (zip peaks keep)))))"

section \<open>The scikit-learn transformers\<close>

text \<open>
  \<^verbatim>\<open>MinMaxScaler().fit_transform\<close> on the single column \<^verbatim>\<open>arr.T\<close>:
  \<^verbatim>\<open>scale_ = 1 / range\<close>, \<^verbatim>\<open>min_ = 0 - data_min * scale_\<close>, \<^verbatim>\<open>X * scale_ + min_\<close>, where a
  range below ten machine epsilons counts as constant and is replaced by 1.  An empty
  column is rejected.
\<close>

definition float_eps :: real where
  "float_eps = 1 / 2 ^ 52"

definition handle_zeros_in_scale :: "real \<Rightarrow> real" where
  "handle_zeros_in_scale r = (if r < 10 * float_eps then 1 else r)"

definition minmax_scale :: "real list \<Rightarrow> real" where
  "minmax_scale col = 1 / handle_zeros_in_scale (np_max col - np_min col)"

definition minmax_min :: "real list \<Rightarrow> real" where
  "minmax_min col = 0 - np_min col * minmax_scale col"

definition MinMaxScaler_fit_transform :: "real list \<Rightarrow> py_exn + real list" where
  "MinMaxScaler_fit_transform col =
     (if col = [] then Inl (ValueError ''Found array with 0 sample(s)'')
      else Inr (map (\<lambda>x. x * minmax_scale col + minmax_min col) col))"

text \<open>
  \<^verbatim>\<open>SimpleImputer(strategy="mean").fit_transform\<close> on a matrix given by its rows: the
  statistic of a column is the mean of its present values; a column with no present
  value at fit has none and is discarded by transform (\<^verbatim>\<open>keep_empty_features=False\<close>
  is the default); in the columns that stay, a missing value is replaced by the
  statistic.  Infinite entries and an empty matrix are rejected.
\<close>

fun present :: "fval list \<Rightarrow> real list" where
  "present [] = []"
| "present (Val v # vs) = v # present vs"
| "present (_ # vs) = present vs"

definition column :: "fval list list \<Rightarrow> nat \<Rightarrow> fval list" where
  "column X j = map (\<lambda>row. row ! j) X"

definition imputer_statistic :: "fval list list \<Rightarrow> nat \<Rightarrow> real option" where
  "imputer_statistic X j =
     (let vals = present (column X j) in if vals = [] then None else Some (np_mean vals))"

definition impute_value :: "real option \<Rightarrow> fval \<Rightarrow> fval" where
  "impute_value st v = (case v of NaN \<Rightarrow> (case st of Some m \<Rightarrow> Val m | None \<Rightarrow> NaN) | _ \<Rightarrow> v)"

definition SimpleImputer_fit_transform :: "fval list list \<Rightarrow> py_exn + fval list list" where
  "SimpleImputer_fit_transform X =
     (if X = [] then Inl (ValueError ''Found array with 0 sample(s)'')
      else if hd X = [] then Inl (ValueError ''Found array with 0 feature(s)'')
      else if list_ex (list_ex is_inf) X then Inl (ValueError ''Input X contains infinity'')
      else
        (let kept = filter (\<lambda>j. imputer_statistic X j \<noteq> None) [0..<length (hd X)]
         in Inr (map (\<lambda>row. map (\<lambda>j. impute_value (imputer_statistic X j) (row ! j)) kept) X)))"

text \<open>\<^verbatim>\<open>np.hstack\<close> of 2-D arrays: the rows are joined; the row counts must agree.\<close>

fun np_hstack :: "'a list list list \<Rightarrow> py_exn + 'a list list" where
  "np_hstack [] = Inl (ValueError ''need at least one array to concatenate'')"
| "np_hstack [A] = Inr A"
| "np_hstack (A # As) =
     (case np_hstack As of
        Inl e \<Rightarrow> Inl e
      | Inr B \<Rightarrow>
          (if length A = length B then Inr (map2 (@) A B)
           else Inl (ValueError ''all the input array dimensions except for the concatenation axis must match exactly'')))"

section \<open>JSON values: the request body and the answer\<close>

text \<open>
  \<^verbatim>\<open>request.json\<close> is the body as \<^verbatim>\<open>json.loads\<close> returns it: \<^verbatim>\<open>None\<close>, a bool, an int,
  a float, a str, a list or a dict (of a repeated key the last value counts).  Only a
  dict has the method \<^verbatim>\<open>get\<close>; on every other value the attribute lookup raises
  AttributeError.  \<^verbatim>\<open>not v\<close> is true of \<^verbatim>\<open>None\<close>, \<^verbatim>\<open>False\<close>, zero and the empty
  string, list and dict.
\<close>

datatype json =
    JNull
  | JBool bool
  | JInt int
  | JFloat real
  | JStr string
  | JArr "json list"
  | JObj "(string \<times> json) list"

fun py_type :: "json \<Rightarrow> string" where
  "py_type JNull = ''NoneType''"
| "py_type (JBool b) = ''bool''"
| "py_type (JInt i) = ''int''"
| "py_type (JFloat r) = ''float''"
| "py_type (JStr s) = ''str''"
| "py_type (JArr xs) = ''list''"
| "py_type (JObj kv) = ''dict''"

definition quoted :: "string \<Rightarrow> string" where
  "quoted s = CHR 0x27 # s @ [CHR 0x27]"

definition dict_get :: "(string \<times> json) list \<Rightarrow> string \<Rightarrow> json \<Rightarrow> json" where
  "dict_get kv key dflt = (case map_of (rev kv) key of None \<Rightarrow> dflt | Some v \<Rightarrow> v)"

fun py_get :: "json \<Rightarrow> string \<Rightarrow> json \<Rightarrow> py_exn + json" where
  "py_get (JObj kv) key dflt = Inr (dict_get kv key dflt)"
| "py_get v key dflt =
     Inl (AttributeError (quoted (py_type v) @ '' object has no attribute '' @ quoted ''get''))"

fun py_not :: "json \<Rightarrow> bool" where
  "py_not JNull = True"
| "py_not (JBool b) = (\<not> b)"
| "py_not (JInt i) = (i = 0)"
| "py_not (JFloat r) = (r = 0)"
| "py_not (JStr s) = (s = [])"
| "py_not (JArr xs) = (xs = [])"
| "py_not (JObj kv) = (kv = [])"

text \<open>
  \<^verbatim>\<open>np.array(data, dtype=float)\<close> of a flat list of JSON numbers is the array of their
  values; \<^verbatim>\<open>filt.tolist()\<close> is the way back.  On any other value numpy decides (a
  nested list is a matrix, \<^verbatim>\<open>null\<close> is NaN, a string is parsed or rejected with
  ValueError, a number is an array without axis): \<open>np_array_float\<close> is \<open>None\<close> there,
  and so is \<open>json_int\<close> on a sample rate that is not a JSON integer.
\<close>

fun json_float :: "json \<Rightarrow> real option" where
  "json_float (JInt i) = Some (real_of_int i)"
| "json_float (JFloat r) = Some r"
| "json_float v = None"

fun np_array_float :: "json \<Rightarrow> real list option" where
  "np_array_float (JArr xs) = those (map json_float xs)"
| "np_array_float v = None"

fun json_int :: "json \<Rightarrow> int option" where
  "json_int (JInt i) = Some i"
| "json_int v = None"

definition tolist :: "real list \<Rightarrow> json" where
  "tolist arr = JArr (map JFloat arr)"

text \<open>
  The answer of the route is the success object with status 200, or an error string
  with status 400 or 500.
\<close>

record prediction =
  sbp :: real
  dbp :: real
  filtered :: json

datatype response = Ok200 prediction | Err nat string

section \<open>The numeric kernels that stay opaque\<close>

text \<open>
  What the pipeline takes from scipy and from the two joblib model files without the
  source saying how it is computed: the three \<^verbatim>\<open>scipy.stats\<close> statistics, the Welch
  estimate \<^verbatim>\<open>welch(row, fs, nperseg)\<close> (frequencies and densities), the Butterworth
  coefficients \<^verbatim>\<open>butter(order, [low, high], btype="band")\<close> for admissible
  frequencies, \<^verbatim>\<open>lfilter_zi(b, a)\<close>, and the two regressors: \<open>None\<close> when loading
  failed at start-up (lines 537-544), otherwise \<^verbatim>\<open>float(model.predict(X)[0])\<close>, which
  may raise.

  \<open>untyped_try\<close> is what lines 631-635 come to when \<^verbatim>\<open>ppg\<close> is not a flat list of
  numbers or \<^verbatim>\<open>fs\<close> is not an integer: numpy's coercion of such values decides
  whether they raise (and what) or compute the three values of the answer; it is not
  modelled further.
\<close>

record kernels =
  stats_skew :: "real list \<Rightarrow> fval"
  stats_kurtosis :: "real list \<Rightarrow> fval"
  stats_entropy :: "real list \<Rightarrow> fval"
  welch :: "real list \<Rightarrow> int \<Rightarrow> nat \<Rightarrow> real list \<times> real list"
  butter_ba :: "nat \<Rightarrow> real \<Rightarrow> real \<Rightarrow> real list \<times> real list"
  lfilter_zi :: "real list \<Rightarrow> real list \<Rightarrow> real list"
  model_sbp :: "(fval list list \<Rightarrow> py_exn + real) option"
  model_dbp :: "(fval list list \<Rightarrow> py_exn + real) option"
  untyped_try :: "json \<Rightarrow> json \<Rightarrow> py_exn + prediction"

section \<open>Feature extraction (lines 554-618)\<close>

definition time_domain_row :: "kernels \<Rightarrow> real list \<Rightarrow> py_exn + fval list" where
  "time_domain_row env s =
     (if s = [] then Inl (ValueError ''zero-size array to reduction operation maximum which has no identity'')
      else
        (let m = np_mean s; sd = np_std s; mx = np_max s; mn = np_min s; rng = mx - mn;
             sk = stats_skew env s; kt = stats_kurtosis env s;
             ent = stats_entropy env (map (\<lambda>x. \<bar>x\<bar> + 1 / 10 ^ 8) s)
         in Inr [Val m, Val sd, Val mx, Val mn, Val rng, sk, kt, ent]))"

definition extract_time_domain_features ::
  "kernels \<Rightarrow> real list list \<Rightarrow> py_exn + fval list list" where
  "extract_time_domain_features env sig = e_mapM (time_domain_row env) sig"

text \<open>\<^verbatim>\<open>np.argmax\<close>: the first position of the largest entry.\<close>

fun argmax_from :: "real list \<Rightarrow> nat \<Rightarrow> real \<Rightarrow> nat \<Rightarrow> nat" where
  "argmax_from [] i best besti = besti"
| "argmax_from (x # xs) i best besti =
     (if best < x then argmax_from xs (i + 1) x i else argmax_from xs (i + 1) best besti)"

definition np_argmax :: "real list \<Rightarrow> nat" where
  "np_argmax xs = argmax_from (tl xs) 1 (hd xs) 0"

definition frequency_domain_row ::
  "kernels \<Rightarrow> int \<Rightarrow> real list \<Rightarrow> py_exn + fval list" where
  "frequency_domain_row env fs s =
     (case welch env s fs (min 256 (length s)) of (f, psd) \<Rightarrow>
        if psd = [] then Inl (ValueError ''attempt to get argmax of an empty sequence'')
        else if length f \<le> np_argmax psd then Inl (IndexError ''index out of bounds'')
        else Inr [Val (f ! np_argmax psd), Val (sum_list psd)])"

definition extract_frequency_domain_features ::
  "kernels \<Rightarrow> real list list \<Rightarrow> int \<Rightarrow> py_exn + fval list list" where
  "extract_frequency_domain_features env sig fs = e_mapM (frequency_domain_row env fs) sig"

definition ppg_specific_row :: "int \<Rightarrow> real list \<Rightarrow> py_exn + fval list" where
  "ppg_specific_row fs s =
     (case find_peaks s (py_int (real_of_int fs * (1 / 2))) of
        Inl e \<Rightarrow> Inl e
      | Inr pks \<Rightarrow>
          if length pks > 1
          then Inr [Val (np_mean (np_diff (map real pks)) / real_of_int fs),
                    Val (np_mean (map (\<lambda>p. s ! p) pks))]
          else Inr [NaN, NaN])"

definition extract_ppg_specific_features :: "real list list \<Rightarrow> int \<Rightarrow> py_exn + fval list list" where
  "extract_ppg_specific_features sig fs = e_mapM (ppg_specific_row fs) sig"

text \<open>
  The morphology extractor \<^verbatim>\<open>extract_ppg_features\<close> (lines 583-607).  Line 586
  rescales the row it is given; the landmarks of lines 593-596 are exact integers.
\<close>

definition eps_normalize :: "real list \<Rightarrow> real list" where
  "eps_normalize sig =
     map (\<lambda>x. (x - np_min sig) / (np_max sig - np_min sig + 1 / 10 ^ 8)) sig"

definition fid_T1 :: "nat list \<Rightarrow> nat list \<Rightarrow> int" where
  "fid_T1 peaks valleys = int (peaks ! 0) - int (valleys ! 0)"

definition fid_T2 :: "nat list \<Rightarrow> nat list \<Rightarrow> int" where
  "fid_T2 peaks valleys =
     (if length valleys > 1 then int (valleys ! 1) - int (peaks ! 0) else fid_T1 peaks valleys)"

definition fid_T3 :: "nat list \<Rightarrow> nat list \<Rightarrow> int" where
  "fid_T3 peaks valleys =
     (if length peaks > 1 \<and> length valleys > 1 then int (peaks ! 1) - int (valleys ! 1)
      else fid_T1 peaks valleys)"

definition fid_T4 :: "nat list \<Rightarrow> nat list \<Rightarrow> int" where
  "fid_T4 peaks valleys = int (valleys ! 0) - int (peaks ! 0)"

definition fid_T5 :: "nat list \<Rightarrow> nat list \<Rightarrow> int" where
  "fid_T5 peaks valleys = int (peaks ! 0) - int (valleys ! 0)"

text \<open>A numpy integer divided by a Python integer: true division, and a zero divisor
  gives an infinity or NaN (with a warning), not an exception.\<close>

definition np_divide_int :: "int \<Rightarrow> int \<Rightarrow> fval" where
  "np_divide_int a b =
     (if b = 0 then (if a = 0 then NaN else if 0 < a then PosInf else NegInf)
      else Val (real_of_int a / real_of_int b))"

definition morphology_values :: "int \<Rightarrow> real list \<Rightarrow> nat list \<Rightarrow> nat list \<Rightarrow> fval list" where
  "morphology_values fs sig peaks valleys =
     (let Pp = sig ! (peaks ! 0); Pv = sig ! (valleys ! 0);
          T1 = fid_T1 peaks valleys; T2 = fid_T2 peaks valleys; T3 = fid_T3 peaks valleys;
          T4 = fid_T4 peaks valleys; T5 = fid_T5 peaks valleys;
          ETR = (if T1 + T2 + T3 \<noteq> 0
                 then Val (real_of_int (T4 + T5) / real_of_int (T1 + T2 + T3)) else NaN);
          BD = T1 + T2 + T3;
          HR = real_of_int BD / 60;
          SVC = (if T1 \<noteq> 0 then Val ((Pp - Pv) / real_of_int T1) else NaN);
          DVC = (if T2 \<noteq> 0 then Val ((Pp - Pv) / real_of_int T2) else NaN);
          d = np_diff sig;
          SMVC = np_max d; DMVC = np_min d;
          PWIR = (if Pv \<noteq> 0 then Val (Pp / Pv) else NaN);
          PWAT = np_divide_int T1 fs
      in [ETR, Val (real_of_int BD), Val HR, SVC, DVC, Val SMVC, Val DMVC, PWIR, PWAT])"

definition ppg_features_row :: "int \<Rightarrow> real list \<Rightarrow> py_exn + fval list" where
  "ppg_features_row fs sig0 =
     (if sig0 = [] then Inl (ValueError ''zero-size array to reduction operation minimum which has no identity'')
      else
        (let sig = eps_normalize sig0 in
         case find_peaks sig 50 of
           Inl e \<Rightarrow> Inl e
         | Inr peaks \<Rightarrow>
             (case find_peaks (map uminus sig) 50 of
                Inl e \<Rightarrow> Inl e
              | Inr valleys \<Rightarrow>
                  if length peaks < 2 \<or> length valleys < 2 then Inr (replicate 9 NaN)
                  else if np_diff sig = []
                  then Inl (ValueError ''zero-size array to reduction operation maximum which has no identity'')
                  else Inr (morphology_values fs sig peaks valleys))))"

definition extract_ppg_features :: "real list list \<Rightarrow> int \<Rightarrow> py_exn + fval list list" where
  "extract_ppg_features ppg_array fs = e_mapM (ppg_features_row fs) ppg_array"

text \<open>\<^verbatim>\<open>extract_features\<close> (lines 609-618); every extractor runs at its default
  \<^verbatim>\<open>fs=100\<close>.\<close>

definition extract_features :: "kernels \<Rightarrow> real list \<Rightarrow> py_exn + fval list list" where
  "extract_features env ppg_signal =
     e_bind (MinMaxScaler_fit_transform ppg_signal) (\<lambda>col.
       let scaled = [col] in
       e_bind (extract_time_domain_features env scaled) (\<lambda>tf.
       e_bind (extract_frequency_domain_features env scaled 100) (\<lambda>ff.
       e_bind (extract_ppg_specific_features scaled 100) (\<lambda>pf.
       e_bind (extract_ppg_features scaled 100) (\<lambda>wf.
       e_bind (np_hstack [tf, ff, pf, wf]) SimpleImputer_fit_transform)))))"

section \<open>The band-pass filter (lines 547-551)\<close>

text \<open>
  \<^verbatim>\<open>butter\<close> rejects critical frequencies outside \<open>(0, 1)\<close> and a band whose edges are
  not increasing.  \<^verbatim>\<open>filtfilt(b, a, x)\<close> with its defaults pads \<open>x\<close> at both ends with
  \<^verbatim>\<open>3 * max(len(a), len(b))\<close> samples by odd extension (and rejects an \<open>x\<close> that is not
  longer than that), runs \<^verbatim>\<open>lfilter\<close> forwards and then backwards, each time from the
  initial state \<^verbatim>\<open>zi\<close> scaled by the first sample, and cuts the padding off.
  \<^verbatim>\<open>lfilter\<close> is the transposed direct form II recursion on the coefficients divided
  by \<^verbatim>\<open>a[0]\<close>.
\<close>

definition butter :: "kernels \<Rightarrow> nat \<Rightarrow> real \<Rightarrow> real \<Rightarrow> py_exn + (real list \<times> real list)" where
  "butter env order low high =
     (if \<not> (0 < low \<and> 0 < high \<and> low < 1 \<and> high < 1)
      then Inl (ValueError ''Digital filter critical frequencies must be 0 < Wn < 1'')
      else if high \<le> low then Inl (ValueError ''Wn[0] must be less than Wn[1]'')
      else Inr (butter_ba env order low high))"

definition odd_ext :: "real list \<Rightarrow> nat \<Rightarrow> py_exn + real list" where
  "odd_ext x n =
     (if n < 1 then Inr x
      else if length x - 1 < n then Inl (ValueError ''The extension length n is too big'')
      else Inr (map (\<lambda>v. 2 * hd x - v) (rev (take n (tl x))) @ x @
                map (\<lambda>v. 2 * last x - v) (take n (tl (rev x)))))"

definition lfilter_step :: "real list \<Rightarrow> real list \<Rightarrow> real \<Rightarrow> real list \<Rightarrow> real \<times> real list" where
  "lfilter_step b a x z =
     (let y = (if z = [] then 0 else hd z) + hd b * x
      in (y, map (\<lambda>(zn, bn, an). zn + bn * x - an * y) (zip (tl z @ [0]) (zip (tl b) (tl a)))))"

fun lfilter_run :: "real list \<Rightarrow> real list \<Rightarrow> real list \<Rightarrow> real list \<Rightarrow> real list" where
  "lfilter_run b a z [] = []"
| "lfilter_run b a z (x # xs) =
     (case lfilter_step b a x z of (y, z') \<Rightarrow> y # lfilter_run b a z' xs)"

definition pad_to :: "nat \<Rightarrow> real list \<Rightarrow> real list" where
  "pad_to k xs = xs @ replicate (k - length xs) 0"

definition lfilter :: "real list \<Rightarrow> real list \<Rightarrow> real list \<Rightarrow> real list \<Rightarrow> py_exn + real list" where
  "lfilter b a x zi =
     (if a = [] \<or> b = [] then Inl (ValueError ''filter coefficients must be non-empty'')
      else if hd a = 0 then Inl (ValueError ''filter coefficient a[0] == 0 not supported yet'')
      else if length zi \<noteq> max (length a) (length b) - 1 then Inl (ValueError ''Unexpected shape for zi'')
      else
        (let k = max (length a) (length b)
         in Inr (lfilter_run (map (\<lambda>v. v / hd a) (pad_to k b)) (map (\<lambda>v. v / hd a) (pad_to k a)) zi x)))"

definition filtfilt :: "kernels \<Rightarrow> real list \<Rightarrow> real list \<Rightarrow> real list \<Rightarrow> py_exn + real list" where
  "filtfilt env b a x =
     (let ntaps = max (length a) (length b); edge = ntaps * 3 in
      if length x \<le> edge
      then Inl (ValueError (''The length of the input vector x must be greater than padlen, which is ''
                            @ str_nat edge @ ''.''))
      else
        e_bind (if 0 < edge then odd_ext x edge else Inr x) (\<lambda>ext.
          let zi = lfilter_zi env b a; x0 = hd ext in
          e_bind (lfilter b a ext (map (\<lambda>z. z * x0) zi)) (\<lambda>y.
            let y0 = last y in
            e_bind (lfilter b a (rev y) (map (\<lambda>z. z * y0) zi)) (\<lambda>y2.
              let y3 = rev y2 in
              Inr (if 0 < edge then drop edge (take (length y3 - edge) y3) else y3)))))"

definition butter_bandpass_filter ::
  "kernels \<Rightarrow> real list \<Rightarrow> real \<Rightarrow> real \<Rightarrow> int \<Rightarrow> nat \<Rightarrow> py_exn + real list" where
  "butter_bandpass_filter env data lowcut highcut fs order =
     (let nyq = (1 / 2) * real_of_int fs in
      if nyq = 0 then Inl (ZeroDivisionError ''float division by zero'')
      else
        (let low = lowcut / nyq; high = highcut / nyq in
         case butter env order low high of
           Inl e \<Rightarrow> Inl e
         | Inr (b, a) \<Rightarrow> filtfilt env b a data))"

section \<open>The prediction route (lines 622-638)\<close>

text \<open>
  The view takes what \<^verbatim>\<open>request.json\<close> evaluates to: the parsed body, or the
  exception werkzeug raises when the body cannot be read as JSON.  Lines 624 and 625
  stand before the \<^verbatim>\<open>try\<close> of line 630, so an exception raised there leaves the view
  (\<open>Inl e\<close>): the route gives no answer of its own then.  Everything from line 631 on
  is inside the \<^verbatim>\<open>try\<close>, whose handler turns any exception into the answer with
  status 500 and the text \<^verbatim>\<open>str(e)\<close>.  \<open>predict_try\<close> is the body of the \<^verbatim>\<open>try\<close> on a
  waveform of numbers and an integer sample rate.  \<^verbatim>\<open>round(x, 1)\<close> rounds half to even.
\<close>

definition round_half_even :: "real \<Rightarrow> int" where
  "round_half_even y =
     (let f = \<lfloor>y\<rfloor>; r = y - real_of_int f in
      if r < 1 / 2 then f else if 1 / 2 < r then f + 1 else if even f then f else f + 1)"

definition py_round1 :: "real \<Rightarrow> real" where
  "py_round1 x = real_of_int (round_half_even (x * 10)) / 10"

definition predict_try ::
  "kernels \<Rightarrow> (fval list list \<Rightarrow> py_exn + real) \<Rightarrow> (fval list list \<Rightarrow> py_exn + real) \<Rightarrow>
   real list \<Rightarrow> int \<Rightarrow> py_exn + prediction" where
  "predict_try env m_sbp m_dbp data fs =
     e_bind (butter_bandpass_filter env data (1 / 2) 8 fs 3) (\<lambda>filt.
     e_bind (extract_features env filt) (\<lambda>X.
     e_bind (m_sbp X) (\<lambda>s.
     e_bind (m_dbp X) (\<lambda>d.
       Inr \<lparr>sbp = py_round1 s, dbp = py_round1 d, filtered = tolist filt\<rparr>))))"

definition typed_fields :: "json \<Rightarrow> json \<Rightarrow> (real list \<times> int) option" where
  "typed_fields data fs =
     (case np_array_float data of
        None \<Rightarrow> None
      | Some arr \<Rightarrow> (case json_int fs of None \<Rightarrow> None | Some f \<Rightarrow> Some (arr, f)))"

definition predict :: "kernels \<Rightarrow> py_exn + json \<Rightarrow> py_exn + response" where
  "predict env request_json =
     e_bind request_json (\<lambda>body.
     e_bind (py_get body ''ppg'' (JArr [])) (\<lambda>data.
     e_bind (py_get body ''fs'' (JInt 100)) (\<lambda>fs.
       if py_not data \<or> model_sbp env = None \<or> model_dbp env = None
       then Inr (Err 400 ''Invalid input or models not loaded'')
       else
         (case (model_sbp env, model_dbp env) of
            (Some m_sbp, Some m_dbp) \<Rightarrow>
              (case (case typed_fields data fs of
                       Some (arr, f) \<Rightarrow> predict_try env m_sbp m_dbp arr f
                     | None \<Rightarrow> untyped_try env data fs) of
                 Inl e \<Rightarrow> Inr (Err 500 (exn_str e))
               | Inr r \<Rightarrow> Inr (Ok200 r))
          | _ \<Rightarrow> Inr (Err 400 ''Invalid input or models not loaded'')))))"

text \<open>The request of a well-behaved client: \<^verbatim>\<open>{"ppg": [x, ...], "fs": n}\<close>.\<close>

definition json_request :: "real list \<Rightarrow> int \<Rightarrow> json" where
  "json_request ppg fs = JObj [(''ppg'', JArr (map JFloat ppg)), (''fs'', JInt fs)]"

section \<open>What is assumed of the opaque kernels, and a stand-in for them\<close>


text \<open>
  Stand-in kernels for running the pipeline on concrete inputs: constant statistics, a
  one-bin spectrum, a filter that only scales by the width of the band, two regressors
  that answer 120 and 80, and a coercion that rejects every value it is asked about.
\<close>

definition mock_kernels :: kernels where
  "mock_kernels =
     \<lparr>stats_skew = (\<lambda>s. Val 0), stats_kurtosis = (\<lambda>s. Val 0), stats_entropy = (\<lambda>s. Val 0),
      welch = (\<lambda>s fs nperseg. ([0], [0])),
      butter_ba = (\<lambda>order low high.
        ((high - low) # replicate (2 * order) 0, 1 # replicate (2 * order) 0)),
      lfilter_zi = (\<lambda>b a. replicate (max (length a) (length b) - 1) 0),
      model_sbp = Some (\<lambda>X. Inr 120), model_dbp = Some (\<lambda>X. Inr 80),
      untyped_try = (\<lambda>data fs. Inl (ValueError ''the stand-in coercion fails''))\<rparr>"

text \<open>Two concrete waveforms: a strictly increasing ramp of 22 samples, and 54 samples
  with two beats (valleys at 1 and 51, peaks at 2 and 52), also as MinMaxScaler
  returns it.\<close>

definition ramp22 :: "real list" where
  "ramp22 = map real [0..<22]"

definition two_beats :: "real list" where
  "two_beats = [0, -1, 1] @ replicate 48 0 @ [-2, 1, 0]"

definition two_beats_scaled :: "real list" where
  "two_beats_scaled = [2 / 3, 1 / 3, 1] @ replicate 48 (2 / 3) @ [0, 1, 2 / 3]"

section \<open>Facts about peak detection\<close>

text \<open>Detected peaks are interior samples, and detection only compares samples, so a
  strictly increasing rescaling of the waveform leaves the detected positions as they
  are.\<close>

lemma look_ahead_le: "i_ahead \<le> length x - 1 \<Longrightarrow> look_ahead x i i_ahead \<le> length x - 1"
proof (induction x i i_ahead rule: look_ahead.induct)
  case (1 x i i_ahead)
  show ?case
  proof (cases "i_ahead < length x - 1 \<and> x ! i_ahead = x ! i")
    case True
    have "look_ahead x i i_ahead = look_ahead x i (i_ahead + 1)"
      using True by (subst look_ahead.simps) simp
    moreover have "look_ahead x i (i_ahead + 1) \<le> length x - 1"
      using 1 True by simp
    ultimately show ?thesis by simp
  next
    case False
    have "look_ahead x i i_ahead = i_ahead"
      using False by (subst look_ahead.simps) auto
    with 1 show ?thesis by simp
  qed
qed

lemma local_maxima_from_bounds:
  "p \<in> set (local_maxima_from x i) \<Longrightarrow> i \<le> p \<and> p + 1 < length x"
proof (induction x i rule: local_maxima_from.induct)
  case (1 x i)
  note IH = "1.IH" and mem = "1.prems"
  show ?case
  proof (cases "i < length x - 1")
    case False
    then have "local_maxima_from x i = []" by (subst local_maxima_from.simps) simp
    with mem show ?thesis by simp
  next
    case inr: True
    define ia where "ia = look_ahead x i (i + 1)"
    have ia_ge: "i + 1 \<le> ia" unfolding ia_def by (rule look_ahead_ge)
    have ia_le: "ia \<le> length x - 1" unfolding ia_def using inr by (intro look_ahead_le) simp
    show ?thesis
    proof (cases "x ! (i - 1) < x ! i")
      case False
      then have eq: "local_maxima_from x i = local_maxima_from x (i + 1)"
        using inr by (subst local_maxima_from.simps) simp
      from IH(3)[OF inr False] mem eq show ?thesis by auto
    next
      case lt: True
      show ?thesis
      proof (cases "x ! ia < x ! i")
        case False
        then have eq: "local_maxima_from x i = local_maxima_from x (i + 1)"
          using inr lt by (subst local_maxima_from.simps) (simp add: ia_def Let_def)
        from IH(2)[OF inr lt refl] False mem eq show ?thesis
          by (auto simp: ia_def)
      next
        case True
        then have eq: "local_maxima_from x i = ((i + (ia - 1)) div 2) # local_maxima_from x (ia + 1)"
          using inr lt by (subst local_maxima_from.simps) (simp add: ia_def Let_def)
        from mem eq consider "p = (i + (ia - 1)) div 2" | "p \<in> set (local_maxima_from x (ia + 1))"
          by auto
        then show ?thesis
        proof cases
          case 1
          with ia_ge ia_le inr show ?thesis by auto
        next
          case 2
          from IH(1)[OF inr lt refl] True 2 have "ia + 1 \<le> p \<and> p + 1 < length x"
            by (simp add: ia_def)
          with ia_ge show ?thesis by simp
        qed
      qed
    qed
  qed
qed

lemma look_ahead_map:
  assumes "strict_mono f" and "i < length x"
  shows "look_ahead (map f x) i j = look_ahead x i j"
  using assms(2)
proof (induction x i j rule: look_ahead.induct)
  case (1 x i j)
  have cond: "(j < length (map f x) - 1 \<and> map f x ! j = map f x ! i)
              = (j < length x - 1 \<and> x ! j = x ! i)"
    using 1(2) assms(1) by (auto simp: strict_mono_eq)
  show ?case
  proof (cases "j < length x - 1 \<and> x ! j = x ! i")
    case True
    have "look_ahead (map f x) i j = look_ahead (map f x) i (j + 1)"
      using True cond by (subst look_ahead.simps) simp
    also have "\<dots> = look_ahead x i (j + 1)" using 1 True by simp
    also have "\<dots> = look_ahead x i j"
      using True by (subst (2) look_ahead.simps) simp
    finally show ?thesis .
  next
    case False
    have "look_ahead (map f x) i j = j"
      using False cond by (subst look_ahead.simps) auto
    moreover have "look_ahead x i j = j"
      using False by (subst look_ahead.simps) auto
    ultimately show ?thesis by simp
  qed
qed

lemma local_maxima_from_map:
  assumes "strict_mono f"
  shows "local_maxima_from (map f x) i = local_maxima_from x i"
proof (induction x i rule: local_maxima_from.induct)
  case (1 x i)
  note IH = "1.IH"
  show ?case
  proof (cases "i < length x - 1")
    case False
    then show ?thesis
      by (subst local_maxima_from.simps, subst (2) local_maxima_from.simps) simp
  next
    case inr: True
    define ia where "ia = look_ahead x i (i + 1)"
    have ia_le: "ia \<le> length x - 1" unfolding ia_def using inr by (intro look_ahead_le) simp
    have ia_map: "look_ahead (map f x) i (i + 1) = ia"
      unfolding ia_def using inr by (intro look_ahead_map assms) simp
    have c1: "(map f x ! (i - 1) < map f x ! i) = (x ! (i - 1) < x ! i)"
      using inr assms by (simp add: strict_mono_less)
    have c2: "(map f x ! ia < map f x ! i) = (x ! ia < x ! i)"
      using inr ia_le assms by (simp add: strict_mono_less)
    show ?thesis
    proof (cases "x ! (i - 1) < x ! i")
      case False
      with IH(3)[OF inr False] inr c1 show ?thesis
        by (subst local_maxima_from.simps, subst (2) local_maxima_from.simps) simp
    next
      case lt: True
      show ?thesis
      proof (cases "x ! ia < x ! i")
        case False
        with IH(2)[OF inr lt refl] inr lt c1 c2 ia_map show ?thesis
          by (subst local_maxima_from.simps, subst (2) local_maxima_from.simps)
             (simp add: ia_def Let_def)
      next
        case True
        with IH(1)[OF inr lt refl] inr lt c1 c2 ia_map show ?thesis
          by (subst local_maxima_from.simps, subst (2) local_maxima_from.simps)
             (simp add: ia_def Let_def)
      qed
    qed
  qed
qed

lemma insort_key_cong_order:
  "(\<And>y. y \<in> set ys \<Longrightarrow> (k' x \<le> k' y) = (k x \<le> k y)) \<Longrightarrow>
   insort_key k' x ys = insort_key k x ys"
  for k k' :: "'a \<Rightarrow> real"
  by (induction ys) auto

lemma sort_key_cong_order:
  "(\<And>a b. a \<in> set xs \<Longrightarrow> b \<in> set xs \<Longrightarrow> (k' a \<le> k' b) = (k a \<le> k b)) \<Longrightarrow>
   sort_key k' xs = sort_key k xs"
  for k k' :: "'a \<Rightarrow> real"
proof (induction xs)
  case Nil
  show ?case by simp
next
  case (Cons x xs)
  have "sort_key k' xs = sort_key k xs" using Cons by simp
  moreover have "insort_key k' x (sort_key k xs) = insort_key k x (sort_key k xs)"
    using Cons.prems by (intro insort_key_cong_order) simp
  ultimately show ?case by simp
qed

lemma np_argsort_map:
  assumes "strict_mono f"
  shows "np_argsort (map f pr) = np_argsort pr"
  unfolding np_argsort_def using assms
  by (simp, intro sort_key_cong_order) (simp add: strict_mono_less_eq)

lemma local_maxima_1d_bounds:
  "p \<in> set (local_maxima_1d x) \<Longrightarrow> 1 \<le> p \<and> p + 1 < length x"
  unfolding local_maxima_1d_def by (rule local_maxima_from_bounds)

lemma find_peaks_map:
  assumes "strict_mono f"
  shows "find_peaks (map f x) d = find_peaks x d"
proof -
  have pk: "local_maxima_1d (map f x) = local_maxima_1d x"
    unfolding local_maxima_1d_def by (rule local_maxima_from_map[OF assms])
  have nth: "map f x ! p = f (x ! p)" if "p \<in> set (local_maxima_1d x)" for p
    using local_maxima_1d_bounds[OF that] by simp
  have eq: "map (\<lambda>p. map f x ! p) (local_maxima_1d x) = map f (map (\<lambda>p. x ! p) (local_maxima_1d x))"
    by (simp add: nth)
  have "np_argsort (map (\<lambda>p. map f x ! p) (local_maxima_1d x))
      = np_argsort (map (\<lambda>p. x ! p) (local_maxima_1d x))"
    by (simp only: eq np_argsort_map[OF assms])
  then have "select_by_peak_distance (local_maxima_1d x) (map (\<lambda>p. map f x ! p) (local_maxima_1d x)) d
           = select_by_peak_distance (local_maxima_1d x) (map (\<lambda>p. x ! p) (local_maxima_1d x)) d"
    unfolding select_by_peak_distance_def by simp
  then show ?thesis unfolding find_peaks_def pk by (simp add: Let_def)
qed

lemma find_peaks_bounds:
  assumes "find_peaks x d = Inr pks" and "p \<in> set pks"
  shows "1 \<le> p \<and> p + 1 < length x"
proof -
  from assms have "p \<in> set (local_maxima_1d x)"
    by (auto simp: find_peaks_def Let_def split: if_splits dest!: set_zip_leftD)
  then show ?thesis by (rule local_maxima_1d_bounds)
qed

lemma local_maxima_from_sorted: "sorted_wrt (<) (local_maxima_from x i)"
proof (induction x i rule: local_maxima_from.induct)
  case (1 x i)
  note IH = "1.IH"
  show ?case
  proof (cases "i < length x - 1")
    case False
    then have "local_maxima_from x i = []" by (subst local_maxima_from.simps) simp
    then show ?thesis by simp
  next
    case inr: True
    define ia where "ia = look_ahead x i (i + 1)"
    have ia_ge: "i + 1 \<le> ia" unfolding ia_def by (rule look_ahead_ge)
    show ?thesis
    proof (cases "x ! (i - 1) < x ! i")
      case False
      then have "local_maxima_from x i = local_maxima_from x (i + 1)"
        using inr by (subst local_maxima_from.simps) simp
      with IH(3)[OF inr False] show ?thesis by simp
    next
      case lt: True
      show ?thesis
      proof (cases "x ! ia < x ! i")
        case False
        then have "local_maxima_from x i = local_maxima_from x (i + 1)"
          using inr lt by (subst local_maxima_from.simps) (simp add: ia_def Let_def)
        with IH(2)[OF inr lt refl] False show ?thesis by (simp add: ia_def)
      next
        case True
        then have eq: "local_maxima_from x i
                       = ((i + (ia - 1)) div 2) # local_maxima_from x (ia + 1)"
          using inr lt by (subst local_maxima_from.simps) (simp add: ia_def Let_def)
        have srt: "sorted_wrt (<) (local_maxima_from x (ia + 1))"
          using IH(1)[OF inr lt refl] True by (simp add: ia_def)
        have "(i + (ia - 1)) div 2 < p" if "p \<in> set (local_maxima_from x (ia + 1))" for p
        proof -
          have "(i + (ia - 1)) div 2 \<le> ia" using ia_ge by simp
          moreover have "ia + 1 \<le> p" using local_maxima_from_bounds[OF that] by simp
          ultimately show ?thesis by simp
        qed
        with srt show ?thesis unfolding eq by simp
      qed
    qed
  qed
qed

lemma local_maxima_1d_sorted: "sorted_wrt (<) (local_maxima_1d x)"
  unfolding local_maxima_1d_def by (rule local_maxima_from_sorted)

text \<open>What one pass of the two marking loops does.\<close>

lemma nth_update_False: "xs[i := False] ! k \<Longrightarrow> xs ! k"
proof (cases "i < length xs")
  case True
  then show "xs[i := False] ! k \<Longrightarrow> xs ! k" by (cases "k = i") simp_all
next
  case False
  then have "xs[i := False] = xs" by (simp add: list_update_beyond)
  then show "xs[i := False] ! k \<Longrightarrow> xs ! k" by simp
qed

lemma length_mark_left: "length (mark_left peaks j d m keep) = length keep"
  by (induction m arbitrary: keep) simp_all

lemma mark_left_le: "mark_left peaks j d m keep ! k \<Longrightarrow> keep ! k"
proof (induction m arbitrary: keep)
  case 0
  then show ?case by simp
next
  case (Suc m)
  show ?case
  proof (cases "int (peaks ! j) - int (peaks ! m) < d")
    case True
    with Suc.prems have "mark_left peaks j d m (keep[m := False]) ! k" by simp
    then have "keep[m := False] ! k" by (rule Suc.IH)
    then show ?thesis by (rule nth_update_False)
  next
    case False
    with Suc.prems show ?thesis by simp
  qed
qed

lemma sorted_nth_le:
  assumes "sorted_wrt (<) peaks" and "a \<le> b" and "b < length peaks"
  shows "peaks ! a \<le> (peaks ! b :: nat)"
proof (cases "a = b")
  case True
  then show ?thesis by simp
next
  case False
  with assms(2) have "a < b" by simp
  with assms(1,3) have "peaks ! a < peaks ! b" by (simp add: sorted_wrt_iff_nth_less)
  then show ?thesis by simp
qed

lemma mark_left_clears:
  assumes "sorted_wrt (<) peaks" and "j < length peaks" and "length keep = length peaks"
    and "m \<le> j" and "k < m" and "int (peaks ! j) - int (peaks ! k) < d"
  shows "\<not> mark_left peaks j d m keep ! k"
  using assms(3-5)
proof (induction m arbitrary: keep)
  case 0
  then show ?case by simp
next
  case (Suc m)
  have m: "m < length peaks" using Suc.prems(2) assms(2) by simp
  have near: "int (peaks ! j) - int (peaks ! m) < d"
  proof -
    have "k \<le> m" using Suc.prems(3) by simp
    from sorted_nth_le[OF assms(1) this m] assms(6) show ?thesis by linarith
  qed
  then have eq: "mark_left peaks j d (Suc m) keep = mark_left peaks j d m (keep[m := False])"
    by simp
  show ?case
  proof (cases "k = m")
    case True
    have "\<not> keep[m := False] ! m" using m Suc.prems(1) by simp
    then have "\<not> mark_left peaks j d m (keep[m := False]) ! m"
      using mark_left_le by blast
    then show ?thesis unfolding eq True .
  next
    case False
    with Suc.prems(3) have "k < m" by simp
    moreover have "length (keep[m := False]) = length peaks" using Suc.prems(1) by simp
    moreover have "m \<le> j" using Suc.prems(2) by simp
    ultimately have "\<not> mark_left peaks j d m (keep[m := False]) ! k"
      using Suc.IH by blast
    then show ?thesis unfolding eq .
  qed
qed

lemma length_mark_right: "length (mark_right peaks j d m keep) = length keep"
proof (induction peaks j d m keep rule: mark_right.induct)
  case (1 peaks j d m keep)
  show ?case
  proof (cases "m < length peaks \<and> int (peaks ! m) - int (peaks ! j) < d")
    case True
    then have "mark_right peaks j d m keep = mark_right peaks j d (m + 1) (keep[m := False])"
      by (subst mark_right.simps) simp
    with "1.IH"[OF True] show ?thesis by simp
  next
    case False
    then have "mark_right peaks j d m keep = keep" by (subst mark_right.simps) auto
    then show ?thesis by simp
  qed
qed

lemma mark_right_le: "mark_right peaks j d m keep ! k \<Longrightarrow> keep ! k"
proof (induction peaks j d m keep rule: mark_right.induct)
  case (1 peaks j d m keep)
  show ?case
  proof (cases "m < length peaks \<and> int (peaks ! m) - int (peaks ! j) < d")
    case True
    then have "mark_right peaks j d m keep = mark_right peaks j d (m + 1) (keep[m := False])"
      by (subst mark_right.simps) simp
    with "1.prems" have "mark_right peaks j d (m + 1) (keep[m := False]) ! k" by simp
    then have "keep[m := False] ! k" by (rule "1.IH"[OF True])
    then show ?thesis by (rule nth_update_False)
  next
    case False
    then have "mark_right peaks j d m keep = keep" by (subst mark_right.simps) auto
    with "1.prems" show ?thesis by simp
  qed
qed

lemma mark_right_clears:
  assumes "sorted_wrt (<) peaks" and "length keep = length peaks"
    and "m \<le> k" and "k < length peaks" and "int (peaks ! k) - int (peaks ! j) < d"
  shows "\<not> mark_right peaks j d m keep ! k"
  using assms
proof (induction peaks j d m keep rule: mark_right.induct)
  case (1 peaks j d m keep)
  have m: "m < length peaks" using "1.prems"(3,4) by simp
  have near: "int (peaks ! m) - int (peaks ! j) < d"
    using sorted_nth_le[OF "1.prems"(1,3,4)] "1.prems"(5) by linarith
  have eq: "mark_right peaks j d m keep = mark_right peaks j d (m + 1) (keep[m := False])"
    using m near by (subst mark_right.simps) simp
  show ?case
  proof (cases "k = m")
    case True
    have "\<not> keep[m := False] ! m" using m "1.prems"(2) by simp
    then have "\<not> mark_right peaks j d (m + 1) (keep[m := False]) ! m"
      using mark_right_le by blast
    then show ?thesis unfolding eq True .
  next
    case False
    with "1.prems"(3) have "m + 1 \<le> k" by simp
    moreover have "length (keep[m := False]) = length peaks" using "1.prems"(2) by simp
    ultimately have "\<not> mark_right peaks j d (m + 1) (keep[m := False]) ! k"
      using "1.IH" m near "1.prems"(1,4,5) by blast
    then show ?thesis unfolding eq .
  qed
qed

lemma length_select_step: "length (select_step peaks d j keep) = length keep"
  by (simp add: select_step_def length_mark_right length_mark_left)

lemma select_step_le: "select_step peaks d j keep ! k \<Longrightarrow> keep ! k"
  by (auto simp: select_step_def split: if_splits dest!: mark_right_le mark_left_le)

lemma select_step_clears:
  assumes "sorted_wrt (<) peaks" and "j < length peaks" and "length keep = length peaks"
    and "select_step peaks d j keep ! j"
    and "k < length peaks" and "k \<noteq> j" and "\<bar>int (peaks ! k) - int (peaks ! j)\<bar> < d"
  shows "\<not> select_step peaks d j keep ! k"
proof -
  have kj: "keep ! j" using assms(4) by (rule select_step_le)
  then have eq: "select_step peaks d j keep
                 = mark_right peaks j d (j + 1) (mark_left peaks j d j keep)"
    by (simp add: select_step_def)
  show ?thesis
  proof (cases "k < j")
    case True
    from assms(7) have "int (peaks ! j) - int (peaks ! k) < d" by linarith
    from mark_left_clears[OF assms(1,2,3) le_refl True this]
    have "\<not> mark_left peaks j d j keep ! k" .
    then show ?thesis unfolding eq using mark_right_le by blast
  next
    case False
    with assms(6) have "j + 1 \<le> k" by simp
    moreover from assms(7) have "int (peaks ! k) - int (peaks ! j) < d" by linarith
    moreover have "length (mark_left peaks j d j keep) = length peaks"
      using assms(3) by (simp add: length_mark_left)
    ultimately show ?thesis unfolding eq
      using mark_right_clears[OF assms(1)] assms(5) by blast
  qed
qed

text \<open>After the whole pass, a kept peak has no kept neighbour closer than the distance.\<close>

lemma isolated_step_other:
  assumes "\<And>k. k < length peaks \<Longrightarrow> keep ! i \<Longrightarrow> k \<noteq> i \<Longrightarrow>
             \<bar>int (peaks ! k) - int (peaks ! i)\<bar> < d \<Longrightarrow> \<not> keep ! k"
    and "k < length peaks" and "select_step peaks d j keep ! i" and "k \<noteq> i"
    and "\<bar>int (peaks ! k) - int (peaks ! i)\<bar> < d"
  shows "\<not> select_step peaks d j keep ! k"
proof -
  from assms(3) have "keep ! i" by (rule select_step_le)
  from assms(1)[OF assms(2) this assms(4,5)] have "\<not> keep ! k" .
  then show ?thesis using select_step_le by blast
qed

lemma isolated_fold:
  assumes "sorted_wrt (<) peaks" and "set js \<subseteq> {..<length peaks}"
    and "length keep = length peaks"
    and "i \<in> set js \<or>
         (\<forall>k<length peaks. keep ! i \<longrightarrow> k \<noteq> i \<longrightarrow>
            \<bar>int (peaks ! k) - int (peaks ! i)\<bar> < d \<longrightarrow> \<not> keep ! k)"
    and "k < length peaks" and "fold (select_step peaks d) js keep ! i" and "k \<noteq> i"
    and "\<bar>int (peaks ! k) - int (peaks ! i)\<bar> < d"
  shows "\<not> fold (select_step peaks d) js keep ! k"
  using assms(2-4,6)
proof (induction js arbitrary: keep)
  case Nil
  with assms(5,7,8) show ?case by simp
next
  case (Cons j js)
  have j: "j < length peaks" using Cons.prems(1) by simp
  have sub: "set js \<subseteq> {..<length peaks}" using Cons.prems(1) by simp
  let ?keep = "select_step peaks d j keep"
  have len: "length ?keep = length peaks"
    using Cons.prems(2) by (simp add: length_select_step)
  have inv: "i \<in> set js \<or>
         (\<forall>k<length peaks. ?keep ! i \<longrightarrow> k \<noteq> i \<longrightarrow>
            \<bar>int (peaks ! k) - int (peaks ! i)\<bar> < d \<longrightarrow> \<not> ?keep ! k)"
  proof (cases "i \<in> set js")
    case True
    then show ?thesis by simp
  next
    case False
    show ?thesis
    proof (cases "i = j")
      case True
      have "\<not> ?keep ! k'" if "k' < length peaks" "?keep ! i" "k' \<noteq> i"
        "\<bar>int (peaks ! k') - int (peaks ! i)\<bar> < d" for k'
        using select_step_clears[OF assms(1) j Cons.prems(2), of d k'] that True by simp
      then show ?thesis by blast
    next
      case ne: False
      with False Cons.prems(3) have old: "\<forall>k<length peaks. keep ! i \<longrightarrow> k \<noteq> i \<longrightarrow>
            \<bar>int (peaks ! k) - int (peaks ! i)\<bar> < d \<longrightarrow> \<not> keep ! k" by simp
      have "\<not> ?keep ! k'" if "k' < length peaks" "?keep ! i" "k' \<noteq> i"
        "\<bar>int (peaks ! k') - int (peaks ! i)\<bar> < d" for k'
        using isolated_step_other[of peaks keep i d k' j] old that by blast
      then show ?thesis by blast
    qed
  qed
  have "fold (select_step peaks d) js ?keep ! i" using Cons.prems(4) by simp
  from Cons.IH[OF sub len inv this] show ?case by simp
qed


lemma np_argsort_set: "set (np_argsort pr) = {..<length pr}"
  by (auto simp: np_argsort_def)

text \<open>Pairwise different priorities have one argsort only, whatever the sorting
  algorithm: the order chosen by \<open>np_argsort\<close> matters for equal priorities alone.\<close>

lemma np_argsort_unique:
  assumes "distinct priority"
    and "distinct idx" and "set idx = {..<length priority}"
    and "sorted (map (\<lambda>i. priority ! i) idx)"
  shows "idx = np_argsort priority"
proof -
  let ?f = "\<lambda>i. priority ! i"
  have inj: "inj_on ?f {..<length priority}"
    using assms(1) by (auto simp: inj_on_def nth_eq_iff_index_eq)
  have s: "set (np_argsort priority) = {..<length priority}"
    and d: "distinct (np_argsort priority)"
    and o: "sorted (map ?f (np_argsort priority))"
    by (auto simp: np_argsort_def)
  have "map ?f idx = map ?f (np_argsort priority)"
  proof (rule sorted_distinct_set_unique)
    show "distinct (map ?f idx)" using assms(2,3) inj by (simp add: distinct_map)
    show "distinct (map ?f (np_argsort priority))" using d s inj by (simp add: distinct_map)
    show "set (map ?f idx) = set (map ?f (np_argsort priority))" using assms(3) s by simp
  qed (use assms(4) o in auto)
  moreover have "inj_on ?f (set idx \<union> set (np_argsort priority))"
    using inj assms(3) s by simp
  ultimately show ?thesis by (simp add: inj_on_map_eq_map)
qed

lemma select_by_peak_distance_length:
  "length (select_by_peak_distance peaks pr d) = length peaks"
proof -
  have "length (fold (select_step peaks d) js keep) = length keep" for js keep
    by (induction js arbitrary: keep) (simp_all add: length_select_step)
  then show ?thesis by (simp add: select_by_peak_distance_def)
qed

lemma select_by_peak_distance_apart:
  assumes "sorted_wrt (<) peaks" and "length pr = length peaks"
    and "i < length peaks" and "k < length peaks" and "k \<noteq> i"
    and "select_by_peak_distance peaks pr d ! i" and "select_by_peak_distance peaks pr d ! k"
  shows "d \<le> \<bar>int (peaks ! k) - int (peaks ! i)\<bar>"
proof (rule ccontr)
  assume "\<not> d \<le> \<bar>int (peaks ! k) - int (peaks ! i)\<bar>"
  then have near: "\<bar>int (peaks ! k) - int (peaks ! i)\<bar> < d" by simp
  have sub: "set (rev (np_argsort pr)) \<subseteq> {..<length peaks}"
    using assms(2) by (simp add: np_argsort_set)
  have mem: "i \<in> set (rev (np_argsort pr)) \<or>
         (\<forall>k<length peaks. replicate (length peaks) True ! i \<longrightarrow> k \<noteq> i \<longrightarrow>
            \<bar>int (peaks ! k) - int (peaks ! i)\<bar> < d \<longrightarrow> \<not> replicate (length peaks) True ! k)"
    using assms(2,3) by (simp add: np_argsort_set)
  have "\<not> fold (select_step peaks d) (rev (np_argsort pr)) (replicate (length peaks) True) ! k"
    using isolated_fold[OF assms(1) sub _ mem assms(4) _ assms(5) near] assms(6)
    by (simp add: select_by_peak_distance_def)
  with assms(7) show False by (simp add: select_by_peak_distance_def)
qed

lemma sorted_wrt_zip_filter:
  assumes "sorted_wrt (\<lambda>a b. R (fst a) (fst b) \<and> (snd a \<and> snd b \<longrightarrow> Q (fst a) (fst b))) zs"
  shows "sorted_wrt (\<lambda>p q. R p q \<and> Q p q) (map fst (filter snd zs))"
  using assms by (induction zs) (auto simp: sorted_wrt_map)

lemma find_peaks_apart:
  assumes "find_peaks x d = Inr pks"
  shows "sorted_wrt (\<lambda>p q. p < q \<and> int p + d \<le> int q) pks"
proof -
  define peaks where "peaks = local_maxima_1d x"
  define keep where "keep = select_by_peak_distance peaks (map (\<lambda>p. x ! p) peaks) d"
  have pks: "pks = map fst (filter snd (zip peaks keep))"
    using assms by (auto simp: find_peaks_def Let_def peaks_def keep_def split: if_splits)
  have srt: "sorted_wrt (<) peaks" unfolding peaks_def by (rule local_maxima_1d_sorted)
  have len: "length keep = length peaks"
    unfolding keep_def by (rule select_by_peak_distance_length)
  have "sorted_wrt (\<lambda>a b. fst a < fst b \<and> (snd a \<and> snd b \<longrightarrow> int (fst a) + d \<le> int (fst b)))
          (zip peaks keep)"
    unfolding sorted_wrt_iff_nth_less
  proof (intro allI impI)
    fix i k assume ik: "i < k" and k: "k < length (zip peaks keep)"
    then have k': "k < length peaks" and i': "i < length peaks" using len by simp_all
    have lt: "peaks ! i < peaks ! k"
      using srt ik k' by (simp add: sorted_wrt_iff_nth_less)
    have "int (peaks ! i) + d \<le> int (peaks ! k)" if "keep ! i" "keep ! k"
    proof -
      have "d \<le> \<bar>int (peaks ! k) - int (peaks ! i)\<bar>"
        using select_by_peak_distance_apart[OF srt _ i' k', of "map (\<lambda>p. x ! p) peaks" d]
          that ik by (simp add: keep_def)
      with lt show ?thesis by linarith
    qed
    with lt show "fst (zip peaks keep ! i) < fst (zip peaks keep ! k) \<and>
          (snd (zip peaks keep ! i) \<and> snd (zip peaks keep ! k) \<longrightarrow>
           int (fst (zip peaks keep ! i)) + d \<le> int (fst (zip peaks keep ! k)))"
      using i' k' len by simp
  qed
  then show ?thesis unfolding pks by (rule sorted_wrt_zip_filter)
qed

lemma find_peaks_few_samples:
  assumes "find_peaks x 50 = Inr pks" and "length x \<le> 52"
  shows "length pks < 2"
proof (rule ccontr)
  assume "\<not> length pks < 2"
  then have len: "1 < length pks" by simp
  have "sorted_wrt (\<lambda>p q. p < q \<and> int p + 50 \<le> int q) pks"
    using assms(1) by (rule find_peaks_apart)
  with len have "int (pks ! 0) + 50 \<le> int (pks ! 1)"
    by (simp add: sorted_wrt_iff_nth_less)
  moreover have "pks ! 1 + 1 < length x"
    using find_peaks_bounds[OF assms(1), of "pks ! 1"] len by simp
  moreover have "1 \<le> pks ! 0"
  proof -
    have "pks ! 0 \<in> set pks" using len by (intro nth_mem) auto
    from find_peaks_bounds[OF assms(1) this] show ?thesis by simp
  qed
  ultimately show False using assms(2) by simp
qed

lemma look_ahead_stop: "x ! i_ahead \<noteq> x ! i \<Longrightarrow> look_ahead x i i_ahead = i_ahead"
  by (subst look_ahead.simps) simp

lemma local_maxima_from_increasing:
  assumes "sorted_wrt (<) x"
  shows "local_maxima_from x i = []"
  using assms
proof (induction x i rule: local_maxima_from.induct)
  case (1 x i)
  note IH = "1.IH" and srt = "1.prems"
  show ?case
  proof (cases "i < length x - 1")
    case False
    then show ?thesis by (subst local_maxima_from.simps) simp
  next
    case inr: True
    have up: "x ! i < x ! (i + 1)"
      using srt inr by (simp add: sorted_wrt_iff_nth_less)
    then have ia: "look_ahead x i (i + 1) = i + 1" by (intro look_ahead_stop) simp
    have nolt: "\<not> x ! look_ahead x i (i + 1) < x ! i" unfolding ia using up by simp
    show ?thesis
    proof (cases "x ! (i - 1) < x ! i")
      case True
      have "local_maxima_from x i = local_maxima_from x (i + 1)"
        using inr True nolt by (subst local_maxima_from.simps) (simp add: Let_def)
      with IH(2)[OF inr True refl nolt srt] show ?thesis by simp
    next
      case False
      have "local_maxima_from x i = local_maxima_from x (i + 1)"
        using inr False by (subst local_maxima_from.simps) simp
      with IH(3)[OF inr False srt] show ?thesis by simp
    qed
  qed
qed

lemma local_maxima_from_decreasing:
  assumes "sorted_wrt (>) x"
  shows "local_maxima_from x i = []"
  using assms
proof (induction x i rule: local_maxima_from.induct)
  case (1 x i)
  note IH = "1.IH" and srt = "1.prems"
  show ?case
  proof (cases "i < length x - 1")
    case False
    then show ?thesis by (subst local_maxima_from.simps) simp
  next
    case inr: True
    have nolt: "\<not> x ! (i - 1) < x ! i"
    proof (cases i)
      case 0
      then show ?thesis by simp
    next
      case (Suc n)
      with srt inr have "x ! i < x ! (i - 1)" by (simp add: sorted_wrt_iff_nth_less)
      then show ?thesis by simp
    qed
    have "local_maxima_from x i = local_maxima_from x (i + 1)"
      using inr nolt by (subst local_maxima_from.simps) simp
    with IH(3)[OF inr nolt srt] show ?thesis by simp
  qed
qed

lemma find_peaks_monotone:
  assumes "1 \<le> d" and "sorted_wrt (<) x \<or> sorted_wrt (>) x"
  shows "find_peaks x d = Inr []"
proof -
  have "local_maxima_1d x = []"
    using assms(2) local_maxima_from_increasing local_maxima_from_decreasing
    unfolding local_maxima_1d_def by blast
  then show ?thesis using assms(1) by (simp add: find_peaks_def)
qed

section \<open>Facts about the feature extractors\<close>

lemma np_min_Min: "xs \<noteq> [] \<Longrightarrow> np_min xs = Min (set xs)"
  by (cases xs) (simp_all add: np_min_def Min.set_eq_fold[symmetric])

lemma np_max_Max: "xs \<noteq> [] \<Longrightarrow> np_max xs = Max (set xs)"
  by (cases xs) (simp_all add: np_max_def Max.set_eq_fold[symmetric])

lemma np_min_le_max: "xs \<noteq> [] \<Longrightarrow> np_min xs \<le> np_max xs"
  by (simp add: np_min_Min np_max_Max)

lemma eps_denominator_pos: "sig \<noteq> [] \<Longrightarrow> 0 < np_max sig - np_min sig + 1 / 10 ^ 8"
  using np_min_le_max[of sig] by simp

lemma find_peaks_eps_normalize:
  assumes "sig \<noteq> []"
  shows "find_peaks (eps_normalize sig) d = find_peaks sig d"
proof -
  define c where "c = np_max sig - np_min sig + 1 / 10 ^ 8"
  have c: "0 < c" unfolding c_def using assms by (rule eps_denominator_pos)
  have "strict_mono (\<lambda>x. (x - np_min sig) / c)"
    using c by (intro strict_monoI divide_strict_right_mono) simp_all
  then have "find_peaks (map (\<lambda>x. (x - np_min sig) / c) sig) d = find_peaks sig d"
    by (rule find_peaks_map)
  then show ?thesis by (simp add: eps_normalize_def c_def)
qed

lemma find_valleys_eps_normalize:
  assumes "sig \<noteq> []"
  shows "find_peaks (map uminus (eps_normalize sig)) d = find_peaks (map uminus sig) d"
proof -
  define c where "c = np_max sig - np_min sig + 1 / 10 ^ 8"
  have c: "0 < c" unfolding c_def using assms by (rule eps_denominator_pos)
  have "strict_mono (\<lambda>y. (y + np_min sig) / c)"
    using c by (intro strict_monoI divide_strict_right_mono) simp_all
  then have "find_peaks (map (\<lambda>y. (y + np_min sig) / c) (map uminus sig)) d
             = find_peaks (map uminus sig) d"
    by (rule find_peaks_map)
  moreover have "map (\<lambda>y. (y + np_min sig) / c) (map uminus sig) = map uminus (eps_normalize sig)"
    by (simp add: eps_normalize_def c_def o_def minus_divide_left)
  ultimately show ?thesis by simp
qed

lemma length_np_diff: "length (np_diff xs) = length xs - 1"
  by (induction xs rule: np_diff.induct) simp_all

lemma find_peaks_Inr: "1 \<le> d \<Longrightarrow> \<exists>pks. find_peaks x d = Inr pks"
  by (simp add: find_peaks_def Let_def)

lemma find_peaks_length:
  assumes "find_peaks x d = Inr pks" and "pks \<noteq> []"
  shows "3 \<le> length x"
proof -
  from assms(2) obtain p where "p \<in> set pks" by (cases pks) auto
  from find_peaks_bounds[OF assms(1) this] show ?thesis by simp
qed

lemma ppg_features_row_missing:
  assumes "sig \<noteq> []" and "find_peaks sig 50 = Inr peaks"
    and "find_peaks (map uminus sig) 50 = Inr valleys"
    and "length peaks < 2 \<or> length valleys < 2"
  shows "ppg_features_row fs sig = Inr (replicate 9 NaN)"
  using assms
  by (simp add: ppg_features_row_def Let_def find_peaks_eps_normalize find_valleys_eps_normalize)

lemma ppg_features_row_computed:
  assumes "sig \<noteq> []" and "find_peaks sig 50 = Inr peaks"
    and "find_peaks (map uminus sig) 50 = Inr valleys"
    and "2 \<le> length peaks" and "2 \<le> length valleys"
  shows "ppg_features_row fs sig = Inr (morphology_values fs (eps_normalize sig) peaks valleys)"
proof -
  from assms(4) have "peaks \<noteq> []" by auto
  from find_peaks_length[OF assms(2) this] have "np_diff (eps_normalize sig) \<noteq> []"
    using length_np_diff[of "eps_normalize sig"] by (auto simp: eps_normalize_def)
  with assms show ?thesis
    by (simp add: ppg_features_row_def Let_def find_peaks_eps_normalize find_valleys_eps_normalize)
qed

lemma py_int_half_100: "py_int (real_of_int 100 * (1 / 2)) = 50"
  by (simp add: py_int_def)

lemma py_int_half:
  assumes "0 \<le> fs"
  shows "py_int (real_of_int fs * (1 / 2)) = fs div 2"
proof -
  have "\<lfloor>real_of_int fs / real_of_int 2\<rfloor> = fs div 2" by (rule floor_divide_of_int_eq)
  then show ?thesis unfolding py_int_def using assms by simp
qed

lemma py_int_half_small:
  assumes "\<not> 2 \<le> fs"
  shows "py_int (real_of_int fs * (1 / 2)) < 1"
proof (cases "0 \<le> fs")
  case True
  with assms have "fs div 2 = 0" by simp
  with py_int_half[OF True] show ?thesis by simp
next
  case False
  then have "real_of_int fs * (1 / 2) < 0" by simp
  then have "\<lceil>real_of_int fs * (1 / 2)\<rceil> \<le> 0"
    by (simp only: ceiling_le_zero less_imp_le)
  with False show ?thesis by (simp add: py_int_def)
qed

lemma np_min_map_mono:
  assumes "mono f" and "xs \<noteq> []"
  shows "np_min (map f xs) = f (np_min xs)"
  using assms by (simp add: np_min_Min mono_Min_commute)

lemma np_max_map_mono:
  assumes "mono f" and "xs \<noteq> []"
  shows "np_max (map f xs) = f (np_max xs)"
  using assms by (simp add: np_max_Max mono_Max_commute)

lemma handle_zeros_pos: "0 < handle_zeros_in_scale r"
proof (cases "r < 10 * float_eps")
  case True
  then show ?thesis by (simp add: handle_zeros_in_scale_def)
next
  case False
  moreover have "0 < 10 * float_eps" by (simp add: float_eps_def)
  ultimately show ?thesis by (simp add: handle_zeros_in_scale_def)
qed

lemma minmax_scale_pos: "0 < minmax_scale col"
  by (simp add: minmax_scale_def handle_zeros_pos)

lemma MinMaxScaler_Inr:
  "sig \<noteq> [] \<Longrightarrow>
   MinMaxScaler_fit_transform sig = Inr (map (\<lambda>x. x * minmax_scale sig + minmax_min sig) sig)"
  by (simp add: MinMaxScaler_fit_transform_def)

lemma MinMaxScaler_min:
  assumes "MinMaxScaler_fit_transform sig = Inr col"
  shows "np_min col = 0"
proof -
  from assms have ne: "sig \<noteq> []" and col: "col = map (\<lambda>x. x * minmax_scale sig + minmax_min sig) sig"
    by (auto simp: MinMaxScaler_fit_transform_def split: if_splits)
  have "mono (\<lambda>x. x * minmax_scale sig + minmax_min sig)"
    using minmax_scale_pos[of sig] by (intro monoI) (simp add: mult_right_mono)
  from np_min_map_mono[OF this ne] show ?thesis
    by (simp add: col minmax_min_def)
qed

lemma MinMaxScaler_max:
  assumes "MinMaxScaler_fit_transform sig = Inr col"
    and "10 * float_eps \<le> np_max sig - np_min sig"
  shows "np_max col = 1"
proof -
  from assms have ne: "sig \<noteq> []" and col: "col = map (\<lambda>x. x * minmax_scale sig + minmax_min sig) sig"
    by (auto simp: MinMaxScaler_fit_transform_def split: if_splits)
  have "mono (\<lambda>x. x * minmax_scale sig + minmax_min sig)"
    using minmax_scale_pos[of sig] by (intro monoI) (simp add: mult_right_mono)
  from np_max_map_mono[OF this ne]
  have "np_max col = np_max sig * minmax_scale sig + minmax_min sig" by (simp add: col)
  also have "\<dots> = (np_max sig - np_min sig) * minmax_scale sig"
    by (simp add: minmax_min_def algebra_simps)
  also have "\<dots> = 1"
  proof -
    have "0 < 10 * float_eps" by (simp add: float_eps_def)
    with assms(2) have "np_max sig - np_min sig \<noteq> 0" by linarith
    with assms(2) show ?thesis by (simp add: minmax_scale_def handle_zeros_in_scale_def)
  qed
  finally show ?thesis .
qed

lemma find_peaks_MinMaxScaler:
  assumes "MinMaxScaler_fit_transform sig = Inr col"
  shows "find_peaks col d = find_peaks sig d"
proof -
  from assms have col: "col = map (\<lambda>x. x * minmax_scale sig + minmax_min sig) sig"
    by (auto simp: MinMaxScaler_fit_transform_def split: if_splits)
  have "strict_mono (\<lambda>x. x * minmax_scale sig + minmax_min sig)"
    using minmax_scale_pos[of sig] by (intro strict_monoI) simp
  then show ?thesis unfolding col by (rule find_peaks_map)
qed

lemma eps_normalize_min:
  assumes "sig \<noteq> []"
  shows "np_min (eps_normalize sig) = 0"
proof -
  define c where "c = np_max sig - np_min sig + 1 / 10 ^ 8"
  have c: "0 < c" unfolding c_def using assms by (rule eps_denominator_pos)
  have "mono (\<lambda>x. (x - np_min sig) / c)"
    using c by (intro monoI divide_right_mono) simp_all
  from np_min_map_mono[OF this assms] show ?thesis
    by (simp add: eps_normalize_def c_def)
qed

lemma eps_normalize_max:
  assumes "sig \<noteq> []"
  shows "np_max (eps_normalize sig)
         = (np_max sig - np_min sig) / (np_max sig - np_min sig + 1 / 10 ^ 8)"
proof -
  define c where "c = np_max sig - np_min sig + 1 / 10 ^ 8"
  have c: "0 < c" unfolding c_def using assms by (rule eps_denominator_pos)
  have "mono (\<lambda>x. (x - np_min sig) / c)"
    using c by (intro monoI divide_right_mono) simp_all
  from np_max_map_mono[OF this assms] show ?thesis
    by (simp add: eps_normalize_def c_def)
qed

lemma eps_normalize_max_less_1:
  assumes "sig \<noteq> []"
  shows "np_max (eps_normalize sig) < 1"
proof -
  have "0 \<le> np_max sig - np_min sig" using np_min_le_max[OF assms] by simp
  then show ?thesis unfolding eps_normalize_max[OF assms] by (simp add: field_simps)
qed

lemma filter_by_index:
  "map (\<lambda>j. xs ! j) (filter (\<lambda>j. P (xs ! j)) [0..<length xs]) = filter P xs"
proof -
  have "filter P xs = filter P (map (\<lambda>j. xs ! j) [0..<length xs])" by (simp add: map_nth)
  also have "\<dots> = map (\<lambda>j. xs ! j) (filter (\<lambda>j. P (xs ! j)) [0..<length xs])"
    by (simp add: filter_map o_def)
  finally show ?thesis by simp
qed

lemma statistic_single_row:
  "imputer_statistic [r] j = (case r ! j of Val v \<Rightarrow> Some v | _ \<Rightarrow> None)"
  by (cases "r ! j") (simp_all add: imputer_statistic_def column_def np_mean_def)

lemma SimpleImputer_single_row:
  assumes "r \<noteq> []" and "\<not> list_ex is_inf r"
  shows "SimpleImputer_fit_transform [r] = Inr [filter (\<lambda>v. \<not> is_nan v) r]"
proof -
  have noinf: "\<not> is_inf (r ! j)" if "j < length r" for j
    using assms(2) that by (auto simp: list_ex_iff)
  have kept: "filter (\<lambda>j. imputer_statistic [r] j \<noteq> None) [0..<length r]
              = filter (\<lambda>j. \<not> is_nan (r ! j)) [0..<length r]"
  proof (rule filter_cong[OF refl])
    fix j assume "j \<in> set [0..<length r]"
    then have "\<not> is_inf (r ! j)" using noinf by simp
    then show "(imputer_statistic [r] j \<noteq> None) = (\<not> is_nan (r ! j))"
      by (cases "r ! j") (simp_all add: statistic_single_row)
  qed
  have val: "impute_value (imputer_statistic [r] j) (r ! j) = r ! j" if "\<not> is_nan (r ! j)" for j
    using that by (cases "r ! j") (simp_all add: impute_value_def)
  have "map (\<lambda>j. impute_value (imputer_statistic [r] j) (r ! j))
          (filter (\<lambda>j. \<not> is_nan (r ! j)) [0..<length r])
        = map (\<lambda>j. r ! j) (filter (\<lambda>j. \<not> is_nan (r ! j)) [0..<length r])"
    by (rule map_cong[OF refl]) (simp add: val)
  also have "\<dots> = filter (\<lambda>v. \<not> is_nan v) r" by (rule filter_by_index)
  finally have row: "map (\<lambda>j. impute_value (imputer_statistic [r] j) (r ! j))
          (filter (\<lambda>j. imputer_statistic [r] j \<noteq> None) [0..<length r])
        = filter (\<lambda>v. \<not> is_nan v) r"
    by (simp only: kept)
  have "SimpleImputer_fit_transform [r]
        = Inr [map (\<lambda>j. impute_value (imputer_statistic [r] j) (r ! j))
                (filter (\<lambda>j. imputer_statistic [r] j \<noteq> None) [0..<length r])]"
    using assms by (simp add: SimpleImputer_fit_transform_def del: not_None_eq)
  then show ?thesis by (simp only: row)
qed

lemma SimpleImputer_single_row_Inr:
  assumes "SimpleImputer_fit_transform [r] = Inr X"
  shows "X = [filter (\<lambda>v. \<not> is_nan v) r]"
proof -
  from assms have "r \<noteq> []" and "\<not> list_ex is_inf r"
    by (auto simp: SimpleImputer_fit_transform_def split: if_splits)
  from SimpleImputer_single_row[OF this] assms show ?thesis by simp
qed

lemma extract_features_Inr:
  assumes "extract_features env sig = Inr X"
  shows "\<exists>col tf ff pf wv.
           MinMaxScaler_fit_transform sig = Inr col \<and>
           time_domain_row env col = Inr tf \<and>
           frequency_domain_row env 100 col = Inr ff \<and>
           ppg_specific_row 100 col = Inr pf \<and>
           ppg_features_row 100 col = Inr wv \<and>
           SimpleImputer_fit_transform [tf @ ff @ pf @ wv] = Inr X"
  using assms
  by (auto simp: extract_features_def e_bind_def Let_def extract_time_domain_features_def
      extract_frequency_domain_features_def extract_ppg_specific_features_def
      extract_ppg_features_def split: sum.splits)

lemma extract_features_rows:
  assumes "MinMaxScaler_fit_transform sig = Inr col"
    and "time_domain_row env col = Inr tf"
    and "frequency_domain_row env 100 col = Inr ff"
    and "ppg_specific_row 100 col = Inr pf"
    and "ppg_features_row 100 col = Inr wv"
  shows "extract_features env sig = SimpleImputer_fit_transform [tf @ ff @ pf @ wv]"
  using assms
  by (simp add: extract_features_def e_bind_def Let_def extract_time_domain_features_def
      extract_frequency_domain_features_def extract_ppg_specific_features_def
      extract_ppg_features_def)

lemma time_domain_row_length: "time_domain_row env s = Inr tf \<Longrightarrow> length tf = 8"
  by (auto simp: time_domain_row_def Let_def split: if_splits)

lemma frequency_domain_row_length: "frequency_domain_row env fs s = Inr ff \<Longrightarrow> length ff = 2"
  by (auto simp: frequency_domain_row_def split: prod.splits if_splits)

lemma ppg_specific_row_length: "ppg_specific_row fs s = Inr pf \<Longrightarrow> length pf = 2"
  by (auto simp: ppg_specific_row_def split: sum.splits if_splits)

lemma ppg_features_row_length: "ppg_features_row fs s = Inr wv \<Longrightarrow> length wv = 9"
  by (auto simp: ppg_features_row_def Let_def morphology_values_def split: sum.splits if_splits)

lemma extract_features_shape:
  assumes "extract_features env sig = Inr X"
  shows "\<exists>row. X = [row] \<and> length row \<le> 21 \<and> \<not> list_ex is_nan row"
proof -
  from extract_features_Inr[OF assms] obtain col tf ff pf wv where
    r: "time_domain_row env col = Inr tf" "frequency_domain_row env 100 col = Inr ff"
       "ppg_specific_row 100 col = Inr pf" "ppg_features_row 100 col = Inr wv"
       "SimpleImputer_fit_transform [tf @ ff @ pf @ wv] = Inr X" by blast
  define feats where "feats = tf @ ff @ pf @ wv"
  have "length feats = 21"
    using time_domain_row_length[OF r(1)] frequency_domain_row_length[OF r(2)]
      ppg_specific_row_length[OF r(3)] ppg_features_row_length[OF r(4)]
    by (simp add: feats_def)
  moreover have "length (filter (\<lambda>v. \<not> is_nan v) feats) \<le> length feats"
    by (rule length_filter_le)
  moreover have "\<not> list_ex is_nan (filter (\<lambda>v. \<not> is_nan v) feats)"
    by (simp add: list_ex_iff)
  moreover have "X = [filter (\<lambda>v. \<not> is_nan v) feats]"
    using SimpleImputer_single_row_Inr[OF r(5)] by (simp only: feats_def)
  ultimately show ?thesis by simp
qed

lemma extract_features_few_peaks:
  assumes "extract_features env sig = Inr X"
    and "find_peaks sig 50 = Inr pks" and "length pks < 2"
  shows "\<exists>row. X = [row] \<and> length row \<le> 10"
proof -
  from extract_features_Inr[OF assms(1)] obtain col tf ff pf wv where
    r: "MinMaxScaler_fit_transform sig = Inr col"
       "time_domain_row env col = Inr tf" "frequency_domain_row env 100 col = Inr ff"
       "ppg_specific_row 100 col = Inr pf" "ppg_features_row 100 col = Inr wv"
       "SimpleImputer_fit_transform [tf @ ff @ pf @ wv] = Inr X" by blast
  from r(1) have ne: "col \<noteq> []"
    by (auto simp: MinMaxScaler_fit_transform_def split: if_splits)
  have pk: "find_peaks col 50 = Inr pks"
    using find_peaks_MinMaxScaler[OF r(1)] assms(2) by simp
  obtain valleys where vl: "find_peaks (map uminus col) 50 = Inr valleys"
    using find_peaks_Inr[of 50] by auto
  have pf: "pf = [NaN, NaN]"
    using r(4) pk assms(3) py_int_half_100 by (simp add: ppg_specific_row_def)
  have wv: "wv = replicate 9 NaN"
    using ppg_features_row_missing[OF ne pk vl, of 100] assms(3) r(5) by simp
  have "filter (\<lambda>v. \<not> is_nan v) (tf @ ff @ pf @ wv)
        = filter (\<lambda>v. \<not> is_nan v) tf @ filter (\<lambda>v. \<not> is_nan v) ff"
    by (simp add: pf wv)
  moreover have "length (filter (\<lambda>v. \<not> is_nan v) tf) \<le> 8"
    using length_filter_le[of _ tf] time_domain_row_length[OF r(2)] by simp
  moreover have "length (filter (\<lambda>v. \<not> is_nan v) ff) \<le> 2"
    using length_filter_le[of _ ff] frequency_domain_row_length[OF r(3)] by simp
  ultimately show ?thesis
    using SimpleImputer_single_row_Inr[OF r(6)] by simp
qed

lemma ppg_specific_row_100_Inr:
  "\<exists>pf. ppg_specific_row 100 s = Inr pf \<and> \<not> list_ex is_inf pf"
proof -
  obtain pks where "find_peaks s 50 = Inr pks" using find_peaks_Inr[of 50] by auto
  then show ?thesis using py_int_half_100 by (simp add: ppg_specific_row_def)
qed

lemma ppg_features_row_100_Inr:
  assumes "s \<noteq> []"
  shows "\<exists>wv. ppg_features_row 100 s = Inr wv \<and> \<not> list_ex is_inf wv"
proof -
  obtain peaks where pk: "find_peaks s 50 = Inr peaks" using find_peaks_Inr[of 50] by auto
  obtain valleys where vl: "find_peaks (map uminus s) 50 = Inr valleys"
    using find_peaks_Inr[of 50] by auto
  show ?thesis
  proof (cases "length peaks < 2 \<or> length valleys < 2")
    case True
    from ppg_features_row_missing[OF assms pk vl True, of 100] show ?thesis
      by (simp add: list_ex_iff)
  next
    case False
    then have "2 \<le> length peaks" "2 \<le> length valleys" by auto
    from ppg_features_row_computed[OF assms pk vl this] show ?thesis
      by (simp add: morphology_values_def Let_def np_divide_int_def)
  qed
qed

lemma find_valleys_MinMaxScaler:
  assumes "MinMaxScaler_fit_transform sig = Inr col"
  shows "find_peaks (map uminus col) d = find_peaks (map uminus sig) d"
proof -
  from assms have col: "col = map (\<lambda>x. x * minmax_scale sig + minmax_min sig) sig"
    by (auto simp: MinMaxScaler_fit_transform_def split: if_splits)
  have "strict_mono (\<lambda>y. y * minmax_scale sig - minmax_min sig)"
    using minmax_scale_pos[of sig] by (intro strict_monoI) simp
  then have "find_peaks (map (\<lambda>y. y * minmax_scale sig - minmax_min sig) (map uminus sig)) d
             = find_peaks (map uminus sig) d"
    by (rule find_peaks_map)
  moreover have "map (\<lambda>y. y * minmax_scale sig - minmax_min sig) (map uminus sig) = map uminus col"
    by (simp add: col o_def)
  ultimately show ?thesis by simp
qed

section \<open>Facts about the filter\<close>

lemma length_lfilter_run: "length (lfilter_run b a z xs) = length xs"
  by (induction xs arbitrary: z) (simp_all split: prod.splits)

lemma lfilter_length: "lfilter b a x zi = Inr y \<Longrightarrow> length y = length x"
  by (auto simp: lfilter_def Let_def length_lfilter_run split: if_splits)




lemma filtfilt_Inr_nonempty: "filtfilt env b a x = Inr y \<Longrightarrow> x \<noteq> []"
  by (auto simp: filtfilt_def Let_def split: if_splits)

lemma filter_Inr_nonempty:
  "butter_bandpass_filter env data lowcut highcut fs order = Inr y \<Longrightarrow> data \<noteq> []"
  by (auto simp: butter_bandpass_filter_def Let_def split: if_splits sum.splits
      dest: filtfilt_Inr_nonempty)

section \<open>Facts about the prediction route\<close>

lemma py_get_not_object:
  "(\<forall>kv. body \<noteq> JObj kv) \<Longrightarrow>
   py_get body key dflt
     = Inl (AttributeError (quoted (py_type body) @ '' object has no attribute '' @ quoted ''get''))"
  by (cases body) simp_all

lemma predict_not_object:
  assumes "\<forall>kv. body \<noteq> JObj kv"
  shows "predict env (Inr body)
           = Inl (AttributeError (quoted (py_type body) @ '' object has no attribute '' @ quoted ''get''))"
  unfolding predict_def by (simp add: e_bind_def py_get_not_object[OF assms])

lemma predict_request_raises: "predict env (Inl e) = Inl e"
  by (simp add: predict_def e_bind_def)

lemma predict_with_models:
  assumes "\<not> py_not (dict_get kv ''ppg'' (JArr []))"
    and "model_sbp env = Some m_sbp" and "model_dbp env = Some m_dbp"
  shows "predict env (Inr (JObj kv)) =
           Inr (case (case typed_fields (dict_get kv ''ppg'' (JArr [])) (dict_get kv ''fs'' (JInt 100)) of
                        Some (arr, f) \<Rightarrow> predict_try env m_sbp m_dbp arr f
                      | None \<Rightarrow> untyped_try env (dict_get kv ''ppg'' (JArr []))
                                  (dict_get kv ''fs'' (JInt 100))) of
                  Inl e \<Rightarrow> Err 500 (exn_str e) | Inr r \<Rightarrow> Ok200 r)"
  using assms by (simp add: predict_def e_bind_def split: sum.splits)

lemma predict_without_models:
  "py_not (dict_get kv ''ppg'' (JArr [])) \<or> model_sbp env = None \<or> model_dbp env = None \<Longrightarrow>
   predict env (Inr (JObj kv)) = Inr (Err 400 ''Invalid input or models not loaded'')"
  by (auto simp: predict_def e_bind_def)

lemma those_length: "those xs = Some ys \<Longrightarrow> length ys = length xs"
  by (induction xs arbitrary: ys) (auto split: option.splits)

lemma typed_fields_empty:
  assumes "typed_fields data fs = Some (arr, f)"
  shows "py_not data \<longleftrightarrow> arr = []"
proof (cases data)
  case (JArr xs)
  with assms have "those (map json_float xs) = Some arr"
    by (simp add: typed_fields_def split: option.splits)
  from those_length[OF this] JArr show ?thesis by auto
qed (use assms in \<open>simp_all add: typed_fields_def\<close>)

lemma predict_typed:
  assumes "typed_fields (dict_get kv ''ppg'' (JArr [])) (dict_get kv ''fs'' (JInt 100)) = Some (arr, f)"
    and "arr \<noteq> []" and "model_sbp env = Some m_sbp" and "model_dbp env = Some m_dbp"
  shows "predict env (Inr (JObj kv)) =
           Inr (case predict_try env m_sbp m_dbp arr f of
                  Inl e \<Rightarrow> Err 500 (exn_str e) | Inr r \<Rightarrow> Ok200 r)"
proof -
  have "\<not> py_not (dict_get kv ''ppg'' (JArr []))"
    using typed_fields_empty[OF assms(1)] assms(2) by simp
  from predict_with_models[OF this assms(3,4)] show ?thesis by (simp add: assms(1))
qed

lemma those_json_floats: "those (map json_float (map JFloat d)) = Some d"
  by (induction d) simp_all

lemma json_request_fields:
  "dict_get [(''ppg'', JArr (map JFloat d)), (''fs'', JInt f)] ''ppg'' (JArr []) = JArr (map JFloat d)"
  "dict_get [(''ppg'', JArr (map JFloat d)), (''fs'', JInt f)] ''fs'' (JInt 100) = JInt f"
  by (simp_all add: dict_get_def)

lemma json_request_typed:
  "typed_fields (JArr (map JFloat d)) (JInt f) = Some (d, f)"
  unfolding typed_fields_def
  by (simp only: np_array_float.simps those_json_floats json_int.simps option.case)

lemma predict_request_with_models:
  assumes "d \<noteq> []" and "model_sbp env = Some m_sbp" and "model_dbp env = Some m_dbp"
  shows "predict env (Inr (json_request d f)) =
           Inr (case predict_try env m_sbp m_dbp d f of
                  Inl e \<Rightarrow> Err 500 (exn_str e) | Inr r \<Rightarrow> Ok200 r)"
  unfolding json_request_def
  by (rule predict_typed) (simp_all add: json_request_fields json_request_typed assms)

lemma predict_request_without_models:
  "d = [] \<or> model_sbp env = None \<or> model_dbp env = None \<Longrightarrow>
   predict env (Inr (json_request d f)) = Inr (Err 400 ''Invalid input or models not loaded'')"
  unfolding json_request_def
  by (rule predict_without_models) (auto simp: json_request_fields)

lemma predict_try_after_filter:
  assumes "butter_bandpass_filter env data (1 / 2) 8 fs 3 = Inr filt"
  shows "predict_try env m_sbp m_dbp data fs =
           e_bind (extract_features env filt) (\<lambda>X.
           e_bind (m_sbp X) (\<lambda>s.
           e_bind (m_dbp X) (\<lambda>d.
             Inr \<lparr>sbp = py_round1 s, dbp = py_round1 d, filtered = tolist filt\<rparr>)))"
  unfolding predict_try_def assms by (simp add: e_bind_def)

lemma str_nat_21: "str_nat 21 = ''21''"
  by (simp add: str_nat.simps)

lemma filtfilt_short:
  assumes "max (length a) (length b) = 7" and "length x \<le> 21"
  shows "filtfilt env b a x
         = Inl (ValueError ''The length of the input vector x must be greater than padlen, which is 21.'')"
  using assms by (simp add: filtfilt_def str_nat_21)

section \<open>The stand-in kernels\<close>


lemma lfilter_step_gain:
  "lfilter_step (g # replicate n 0) (1 # replicate n 0) x (replicate n 0) = (g * x, replicate n 0)"
proof (cases n)
  case 0
  then show ?thesis by (simp add: lfilter_step_def)
next
  case (Suc m)
  have "tl (replicate (Suc m) (0::real)) @ [0] = replicate (Suc m) 0"
    by (simp add: replicate_append_same)
  then show ?thesis
    unfolding Suc lfilter_step_def Let_def
    by (simp add: zip_replicate del: replicate.simps)
qed

lemma lfilter_run_gain:
  "lfilter_run (g # replicate n 0) (1 # replicate n 0) (replicate n 0) xs = map (\<lambda>x. g * x) xs"
  by (induction xs) (simp_all add: lfilter_step_gain)

lemma lfilter_gain:
  "lfilter (g # replicate n 0) (1 # replicate n 0) x (replicate n 0)
   = Inr (map (\<lambda>x. g * x) x)"
proof -
  have "map (\<lambda>v. v / 1) (pad_to (Suc n) (w # replicate n (0::real))) = w # replicate n 0" for w
    by (simp add: pad_to_def)
  then show ?thesis
    by (simp add: lfilter_def Let_def lfilter_run_gain)
qed

lemma odd_ext_parts:
  assumes "0 < n" and "n < length x"
  shows "\<exists>L R. odd_ext x n = Inr (L @ x @ R) \<and> length L = n \<and> length R = n"
proof -
  define L where "L = map (\<lambda>v. 2 * hd x - v) (rev (take n (tl x)))"
  define R where "R = map (\<lambda>v. 2 * last x - v) (take n (tl (rev x)))"
  have "odd_ext x n = Inr (L @ x @ R)"
    using assms by (simp add: odd_ext_def L_def R_def)
  moreover have "length L = n" "length R = n"
    using assms by (simp_all add: L_def R_def)
  ultimately show ?thesis by blast
qed

lemma filtfilt_gain:
  assumes "3 * (n + 1) < length x"
    and "lfilter_zi env (g # replicate n 0) (1 # replicate n 0) = replicate n 0"
  shows "filtfilt env (g # replicate n 0) (1 # replicate n 0) x = Inr (map (\<lambda>v. g * (g * v)) x)"
proof -
  define edge where "edge = (n + 1) * 3"
  have edge: "0 < edge" "edge < length x" using assms(1) by (simp_all add: edge_def)
  from odd_ext_parts[OF edge] obtain L R where
    ext: "odd_ext x edge = Inr (L @ x @ R)" "length L = edge" "length R = edge" by blast
  define E where "E = L @ x @ R"
  have len: "max (length (1 # replicate n (0::real))) (length (g # replicate n 0)) * 3 = edge"
    by (simp add: edge_def)
  have zi: "map (\<lambda>z. z * c) (replicate n (0::real)) = replicate n 0" for c by simp
  have trim: "drop edge (take (length (map f E) - edge) (map f E)) = map f x" for f :: "real \<Rightarrow> real"
    using ext(2,3) by (simp add: E_def take_map drop_map)
  have twice: "rev (map (\<lambda>v. g * v) (rev (map (\<lambda>v. g * v) E))) = map (\<lambda>v. g * (g * v)) E"
    by (simp add: rev_map o_def)
  have "filtfilt env (g # replicate n 0) (1 # replicate n 0) x
        = Inr (drop edge (take (length (map (\<lambda>v. g * (g * v)) E) - edge) (map (\<lambda>v. g * (g * v)) E)))"
    unfolding filtfilt_def Let_def len assms(2) zi ext(1)[folded E_def]
    using edge
    by (simp add: e_bind_def lfilter_gain rev_map o_def)
  then show ?thesis by (simp only: trim)
qed

lemma mock_filter:
  assumes "16 < fs" and "21 < length data"
  shows "butter_bandpass_filter mock_kernels data (1 / 2) 8 fs 3
         = Inr (map (\<lambda>v. (15 / real_of_int fs) * ((15 / real_of_int fs) * v)) data)"
proof -
  define nyq where "nyq = (1 / 2) * real_of_int fs"
  define low where "low = (1 / 2) / nyq"
  define high where "high = 8 / nyq"
  have fs: "16 < real_of_int fs" using assms(1) by simp
  have nyq: "8 < nyq" unfolding nyq_def using fs by simp
  have rng: "0 < low" "0 < high" "low < 1" "high < 1" "low < high"
    using nyq by (simp_all add: low_def high_def field_simps)
  have g: "high - low = 15 / real_of_int fs"
    using fs by (simp add: high_def low_def nyq_def field_simps)
  have bt: "butter mock_kernels 3 low high = Inr ((high - low) # replicate 6 0, 1 # replicate 6 0)"
    using rng by (simp add: butter_def mock_kernels_def del: replicate.simps)
  have zi: "lfilter_zi mock_kernels ((high - low) # replicate 6 0) (1 # replicate 6 0) = replicate 6 0"
    by (simp add: mock_kernels_def del: replicate.simps)
  have "butter_bandpass_filter mock_kernels data (1 / 2) 8 fs 3
        = filtfilt mock_kernels ((high - low) # replicate 6 0) (1 # replicate 6 0) data"
    unfolding butter_bandpass_filter_def Let_def nyq_def[symmetric] low_def[symmetric]
      high_def[symmetric]
    using bt nyq by simp
  also have "\<dots> = Inr (map (\<lambda>v. (high - low) * ((high - low) * v)) data)"
    using assms(2) zi by (intro filtfilt_gain) simp_all
  finally show ?thesis by (simp only: g)
qed

lemma mock_filter_50: "butter_bandpass_filter mock_kernels ramp22 (1 / 2) 8 50 3
   = Inr (map (\<lambda>v. 9 / 100 * v) ramp22)"
proof -
  have "(16::int) < 50" "21 < length ramp22" by (simp_all add: ramp22_def)
  from mock_filter[OF this] show ?thesis by simp
qed

lemma mock_filter_100: "butter_bandpass_filter mock_kernels (map (\<lambda>x. 4 * x) ramp22) (1 / 2) 8 100 3
   = Inr (map (\<lambda>v. 9 / 100 * v) ramp22)"
proof -
  have "(16::int) < 100" "21 < length (map (\<lambda>x. 4 * x) ramp22)" by (simp_all add: ramp22_def)
  from mock_filter[OF this] show ?thesis by (simp add: o_def)
qed

lemma mock_extract_features:
  assumes "sig \<noteq> []"
  shows "\<exists>X. extract_features mock_kernels sig = Inr X"
proof -
  define col where "col = map (\<lambda>x. x * minmax_scale sig + minmax_min sig) sig"
  have sc: "MinMaxScaler_fit_transform sig = Inr col"
    using assms by (simp add: MinMaxScaler_Inr col_def)
  have ne: "col \<noteq> []" using assms by (simp add: col_def)
  obtain tf where tf: "time_domain_row mock_kernels col = Inr tf" "\<not> list_ex is_inf tf" "tf \<noteq> []"
    using ne by (simp add: time_domain_row_def Let_def mock_kernels_def)
  have ff: "frequency_domain_row mock_kernels 100 col = Inr [Val 0, Val 0]"
    by (simp add: frequency_domain_row_def mock_kernels_def np_argmax_def)
  obtain pf where pf: "ppg_specific_row 100 col = Inr pf" "\<not> list_ex is_inf pf"
    using ppg_specific_row_100_Inr by blast
  obtain wv where wv: "ppg_features_row 100 col = Inr wv" "\<not> list_ex is_inf wv"
    using ppg_features_row_100_Inr[OF ne] by blast
  have "extract_features mock_kernels sig
        = SimpleImputer_fit_transform [tf @ [Val 0, Val 0] @ pf @ wv]"
    using sc tf(1) ff pf(1) wv(1) by (rule extract_features_rows)
  moreover have "tf @ [Val 0, Val 0] @ pf @ wv \<noteq> []" by simp
  moreover have "\<not> list_ex is_inf (tf @ [Val 0, Val 0] @ pf @ wv)"
    using tf(2) pf(2) wv(2) by (auto simp: list_ex_iff)
  ultimately show ?thesis using SimpleImputer_single_row by simp
qed

lemma mock_extract_features_few_peaks:
  assumes "sig \<noteq> []" and "find_peaks sig 50 = Inr pks" and "length pks < 2"
  shows "\<exists>row. extract_features mock_kernels sig = Inr [row] \<and> length row = 10"
proof -
  define col where "col = map (\<lambda>x. x * minmax_scale sig + minmax_min sig) sig"
  have sc: "MinMaxScaler_fit_transform sig = Inr col"
    using assms(1) by (simp add: MinMaxScaler_Inr col_def)
  have ne: "col \<noteq> []" using assms(1) by (simp add: col_def)
  define tf where "tf = [Val (np_mean col), Val (np_std col), Val (np_max col), Val (np_min col),
                         Val (np_max col - np_min col), Val 0, Val 0, Val 0]"
  have tf: "time_domain_row mock_kernels col = Inr tf"
    using ne by (simp add: time_domain_row_def Let_def mock_kernels_def tf_def)
  have ff: "frequency_domain_row mock_kernels 100 col = Inr [Val 0, Val 0]"
    by (simp add: frequency_domain_row_def mock_kernels_def np_argmax_def)
  have pk: "find_peaks col 50 = Inr pks"
    using find_peaks_MinMaxScaler[OF sc] assms(2) by simp
  obtain valleys where vl: "find_peaks (map uminus col) 50 = Inr valleys"
    using find_peaks_Inr[of 50] by auto
  have pf: "ppg_specific_row 100 col = Inr [NaN, NaN]"
    using pk assms(3) py_int_half_100 by (simp add: ppg_specific_row_def)
  have wv: "ppg_features_row 100 col = Inr (replicate 9 NaN)"
    using ppg_features_row_missing[OF ne pk vl, of 100] assms(3) by simp
  have "extract_features mock_kernels sig
        = SimpleImputer_fit_transform [tf @ [Val 0, Val 0] @ [NaN, NaN] @ replicate 9 NaN]"
    using sc tf ff pf wv by (rule extract_features_rows)
  also have "\<dots> = Inr [filter (\<lambda>v. \<not> is_nan v) (tf @ [Val 0, Val 0] @ [NaN, NaN] @ replicate 9 NaN)]"
    by (intro SimpleImputer_single_row) (simp_all add: tf_def list_ex_iff)
  also have "filter (\<lambda>v. \<not> is_nan v) (tf @ [Val 0, Val 0] @ [NaN, NaN] @ replicate 9 NaN)
             = tf @ [Val 0, Val 0]"
    by (simp add: tf_def)
  finally show ?thesis by (simp add: tf_def)
qed

section \<open>The concrete waveforms\<close>

lemma ramp22_increasing: "sorted_wrt (<) ramp22"
  unfolding ramp22_def by (simp add: sorted_wrt_map sorted_wrt_iff_nth_less)

lemma find_peaks_ramp22: "find_peaks ramp22 50 = Inr []"
  using ramp22_increasing by (intro find_peaks_monotone) simp_all

lemma find_peaks_two_beats: "find_peaks two_beats 50 = Inr [2, 52]"
  by code_simp

lemma find_valleys_two_beats: "find_peaks (map uminus two_beats) 50 = Inr [1, 51]"
  by code_simp

lemma two_beats_normalized:
  "eps_normalize two_beats ! 2 = 300000000 / 300000001"
  "eps_normalize two_beats ! Suc 0 = 100000000 / 300000001"
  "np_max (np_diff (eps_normalize two_beats)) = 300000000 / 300000001"
  "np_min (np_diff (eps_normalize two_beats)) = - (200000000 / 300000001)"
  by code_simp+

lemma scaled_two_beats: "MinMaxScaler_fit_transform two_beats = Inr two_beats_scaled"
  by code_simp

lemma two_beats_scaled_values:
  "np_min two_beats_scaled = 0"
  "np_max two_beats_scaled = 1"
  "np_max (eps_normalize two_beats_scaled) = 100000000 / 100000001"
  "morphology_values 100 two_beats_scaled [2, 52] [1, 51] =
     [Val 0, Val 51, Val (51 / 60), Val (2 / 3), Val (2 / 147), Val 1, Val (- (2 / 3)),
      Val 3, Val (1 / 100)]"
  "morphology_values 100 (eps_normalize two_beats_scaled) [2, 52] [1, 51] =
     [Val 0, Val 51, Val (51 / 60), Val (200000000 / 300000003),
      Val (200000000 / 14700000147), Val (100000000 / 100000001),
      Val (- (200000000 / 300000003)), Val 3, Val (1 / 100)]"
  by code_simp+

lemma two_beats_scaled_row:
  "extract_ppg_features [two_beats_scaled] 100
   = Inr [morphology_values 100 (eps_normalize two_beats_scaled) [2, 52] [1, 51]]"
proof -
  have ne: "two_beats_scaled \<noteq> []" by (simp add: two_beats_scaled_def)
  have pk: "find_peaks two_beats_scaled 50 = Inr [2, 52]"
    using find_peaks_MinMaxScaler[OF scaled_two_beats] find_peaks_two_beats by simp
  have vl: "find_peaks (map uminus two_beats_scaled) 50 = Inr [1, 51]"
    using find_valleys_MinMaxScaler[OF scaled_two_beats] find_valleys_two_beats by simp
  have "ppg_features_row 100 two_beats_scaled
        = Inr (morphology_values 100 (eps_normalize two_beats_scaled) [2, 52] [1, 51])"
    using ne pk vl by (rule ppg_features_row_computed) simp_all
  then show ?thesis by (simp add: extract_ppg_features_def)
qed

lemma predict_mock_ramp22:
  "predict mock_kernels (Inr (json_request ramp22 50))
     = Inr (Ok200 \<lparr>sbp = 120, dbp = 80, filtered = tolist (map (\<lambda>v. 9 / 100 * v) ramp22)\<rparr>)"
proof -
  have ne: "map (\<lambda>v. 9 / 100 * v) ramp22 \<noteq> []" and data: "ramp22 \<noteq> []"
    by (simp_all add: ramp22_def)
  from mock_extract_features[OF ne] obtain X where
    X: "extract_features mock_kernels (map (\<lambda>v. 9 / 100 * v) ramp22) = Inr X" by blast
  have round: "py_round1 120 = 120" "py_round1 80 = 80"
    by (simp_all add: py_round1_def round_half_even_def)
  have m: "model_sbp mock_kernels = Some (\<lambda>X. Inr 120)" "model_dbp mock_kernels = Some (\<lambda>X. Inr 80)"
    by (simp_all add: mock_kernels_def)
  show ?thesis
    using predict_request_with_models[OF data m, of 50]
      predict_try_after_filter[OF mock_filter_50, of "\<lambda>X. Inr 120" "\<lambda>X. Inr 80"] X round
    by (simp add: e_bind_def)
qed

section \<open>The claims\<close>

text \<open>
  C1.  The claim asks for 21 slots and no missing value after imputation.  A waveform of
  at most 52 samples cannot hold two peaks 50 samples apart, so the two pulse-interval
  and the nine morphology slots are missing; the imputer, fitted on this one row, has
  no mean for them and drops them.  Whatever the opaque kernels return, a feature
  vector that comes back for such a waveform has no missing value but at most 10 slots.
  The ramp of 22 samples is such a waveform.
\<close>

theorem short_waveform_feature_vector:
  assumes "extract_features env sig = Inr X" and "length sig \<le> 52"
  shows "\<exists>row. X = [row] \<and> length row \<le> 10 \<and> \<not> list_ex is_nan row"
proof -
  obtain pks where pk: "find_peaks sig 50 = Inr pks" using find_peaks_Inr[of 50] by auto
  from find_peaks_few_samples[OF pk assms(2)] have "length pks < 2" .
  from extract_features_few_peaks[OF assms(1) pk this] extract_features_shape[OF assms(1)]
  show ?thesis by auto
qed

theorem short_waveform_feature_vector_witness:
  "21 < length ramp22 \<and> length ramp22 \<le> 52 \<and>
   (\<exists>row. extract_features mock_kernels ramp22 = Inr [row] \<and> length row = 10 \<and>
          \<not> list_ex is_nan row)"
proof -
  have ne: "ramp22 \<noteq> []" and len: "length ramp22 \<le> 52" by (simp_all add: ramp22_def)
  have "length ([] :: nat list) < 2" by simp
  from mock_extract_features_few_peaks[OF ne find_peaks_ramp22 this] obtain row where
    row: "extract_features mock_kernels ramp22 = Inr [row]" "length row = 10" by blast
  from short_waveform_feature_vector[OF row(1) len] row show ?thesis
    by (auto simp: ramp22_def)
qed

text \<open>
  C2.  As stated the claim fails for the sample rate 1: the distance handed to the peak
  detector is \<^verbatim>\<open>int(fs*0.5)\<close>, here 0, which the detector rejects.
\<close>

theorem pulse_interval_counterexample:
  "py_int (real_of_int 1 * (1 / 2)) = 0 \<and>
   extract_ppg_specific_features [[0, 1, 0]] 1
     = Inl (ValueError ''`distance` must be greater or equal to 1'')"
  by (simp add: py_int_def extract_ppg_specific_features_def ppg_specific_row_def
      find_peaks_def)

text \<open>
  C2, amended.  For every waveform and every sample rate of at least 2, the
  pulse-interval extractor detects peaks with the minimum distance \<^verbatim>\<open>int(fs*0.5)\<close>, which
  is \<open>fs div 2\<close> (half the sample rate, rounded down), without raising: the detected
  positions are increasing and any two of them are at least that far apart.  When more
  than one peak is detected it returns the mean of the consecutive peak-index
  differences divided by the sample rate together with the mean peak amplitude, and the
  missing sentinel twice otherwise.  For every waveform and every sample rate below 2
  the distance is below 1, and the extractor raises the detector's ValueError.
\<close>

theorem pulse_interval_features:
  "if 2 \<le> fs
   then py_int (real_of_int fs * (1 / 2)) = fs div 2 \<and>
        (\<exists>pks. find_peaks s (fs div 2) = Inr pks \<and>
           sorted_wrt (\<lambda>p q. p < q \<and> int p + fs div 2 \<le> int q) pks \<and>
           extract_ppg_specific_features [s] fs = Inr
             [if 1 < length pks
              then [Val (np_mean (np_diff (map real pks)) / real_of_int fs),
                    Val (np_mean (map (\<lambda>p. s ! p) pks))]
              else [NaN, NaN]])
   else py_int (real_of_int fs * (1 / 2)) < 1 \<and>
        extract_ppg_specific_features [s] fs
          = Inl (ValueError ''`distance` must be greater or equal to 1'')"
proof (cases "2 \<le> fs")
  case True
  have d: "py_int (real_of_int fs * (1 / 2)) = fs div 2"
    using True by (intro py_int_half) simp
  have "1 \<le> fs div 2" using True by simp
  from find_peaks_Inr[OF this] obtain pks where pk: "find_peaks s (fs div 2) = Inr pks" by blast
  have "ppg_specific_row fs s = Inr
          (if 1 < length pks
           then [Val (np_mean (np_diff (map real pks)) / real_of_int fs),
                 Val (np_mean (map (\<lambda>p. s ! p) pks))]
           else [NaN, NaN])"
    unfolding ppg_specific_row_def d pk by simp
  then have "\<exists>pks. find_peaks s (fs div 2) = Inr pks \<and>
           sorted_wrt (\<lambda>p q. p < q \<and> int p + fs div 2 \<le> int q) pks \<and>
           extract_ppg_specific_features [s] fs = Inr
             [if 1 < length pks
              then [Val (np_mean (np_diff (map real pks)) / real_of_int fs),
                    Val (np_mean (map (\<lambda>p. s ! p) pks))]
              else [NaN, NaN]]"
    using pk find_peaks_apart[OF pk] by (simp add: extract_ppg_specific_features_def)
  with True d show ?thesis by simp
next
  case False
  then have small: "py_int (real_of_int fs * (1 / 2)) < 1"
    by (rule py_int_half_small)
  then have "ppg_specific_row fs s = Inl (ValueError ''`distance` must be greater or equal to 1'')"
    unfolding ppg_specific_row_def find_peaks_def by simp
  then have "extract_ppg_specific_features [s] fs
             = Inl (ValueError ''`distance` must be greater or equal to 1'')"
    by (simp add: extract_ppg_specific_features_def)
  with False small show ?thesis by simp
qed

theorem pulse_interval_features_witness:
  "(2::int) \<le> 100 \<and> find_peaks two_beats (100 div 2) = Inr [2, 52] \<and>
   extract_ppg_specific_features [two_beats] 100 = Inr [[Val (1 / 2), Val 1]] \<and>
   \<not> (2::int) \<le> 0 \<and>
   extract_ppg_specific_features [two_beats] 0
     = Inl (ValueError ''`distance` must be greater or equal to 1'')"
proof -
  note pk = find_peaks_two_beats
  have amp: "two_beats ! 2 = 1" "two_beats ! 52 = 1" by code_simp+
  have a: "extract_ppg_specific_features [two_beats] 100 = Inr [[Val (1 / 2), Val 1]]"
    using pk pulse_interval_features[of 100 two_beats]
    by (simp add: np_mean_def amp)
  have b: "extract_ppg_specific_features [two_beats] 0
           = Inl (ValueError ''`distance` must be greater or equal to 1'')"
    using pulse_interval_features[of 0 two_beats] by simp
  from pk a b show ?thesis by simp
qed

text \<open>
  C3.  Two runs of the route whose filtered waveforms agree (whatever the raw waveforms
  and the sample rates were) compute the same feature vector and give the same answer;
  and wherever a feature vector comes back, the frequency, pulse-interval and
  morphology rows were computed at the fixed rate 100.
\<close>

theorem features_independent_of_fs:
  assumes "butter_bandpass_filter env d1 (1 / 2) 8 fs1 3 = Inr filt"
    and "butter_bandpass_filter env d2 (1 / 2) 8 fs2 3 = Inr filt"
  shows "e_bind (butter_bandpass_filter env d1 (1 / 2) 8 fs1 3) (extract_features env)
           = e_bind (butter_bandpass_filter env d2 (1 / 2) 8 fs2 3) (extract_features env) \<and>
         predict env (Inr (json_request d1 fs1))
           = predict env (Inr (json_request d2 fs2)) \<and>
         (\<forall>X. extract_features env filt = Inr X \<longrightarrow>
            (\<exists>col tf ff pf wv.
               MinMaxScaler_fit_transform filt = Inr col \<and>
               time_domain_row env col = Inr tf \<and>
               frequency_domain_row env 100 col = Inr ff \<and>
               ppg_specific_row 100 col = Inr pf \<and>
               ppg_features_row 100 col = Inr wv \<and>
               SimpleImputer_fit_transform [tf @ ff @ pf @ wv] = Inr X))"
proof -
  have ne: "d1 \<noteq> []" "d2 \<noteq> []"
    using assms by (auto dest: filter_Inr_nonempty)
  have a: "e_bind (butter_bandpass_filter env d1 (1 / 2) 8 fs1 3) (extract_features env)
           = e_bind (butter_bandpass_filter env d2 (1 / 2) 8 fs2 3) (extract_features env)"
    by (simp add: assms)
  have b: "predict env (Inr (json_request d1 fs1))
           = predict env (Inr (json_request d2 fs2))"
  proof (cases "model_sbp env = None \<or> model_dbp env = None")
    case True
    then show ?thesis by (simp add: predict_request_without_models)
  next
    case False
    then obtain ms md where m: "model_sbp env = Some ms" "model_dbp env = Some md" by auto
    have "predict_try env ms md d1 fs1 = predict_try env ms md d2 fs2"
      by (simp add: predict_try_after_filter[OF assms(1)] predict_try_after_filter[OF assms(2)])
    then show ?thesis
      using ne m by (simp add: predict_request_with_models)
  qed
  from a b extract_features_Inr[of env filt] show ?thesis by blast
qed

theorem features_independent_of_fs_witness:
  "butter_bandpass_filter mock_kernels (map (\<lambda>x. 4 * x) ramp22) (1 / 2) 8 100 3
     = Inr (map (\<lambda>v. 9 / 100 * v) ramp22) \<and>
   butter_bandpass_filter mock_kernels ramp22 (1 / 2) 8 50 3
     = Inr (map (\<lambda>v. 9 / 100 * v) ramp22) \<and>
   predict mock_kernels (Inr (json_request (map (\<lambda>x. 4 * x) ramp22) 100))
     = predict mock_kernels (Inr (json_request ramp22 50))"
  using mock_filter_100 mock_filter_50
    features_independent_of_fs[OF mock_filter_100 mock_filter_50]
  by simp



text \<open>
  C5.  As stated the claim fails on the two-beat waveform: MinMaxScaler has already
  brought it to minimum 0 and maximum 1, yet the morphology extractor returns other
  values than its formulas give on that waveform, because line 586 rescales it again,
  and the rescaling with \<open>\<epsilon>\<close> leaves the maximum below 1.
\<close>

theorem single_normalization_counterexample:
  "MinMaxScaler_fit_transform two_beats = Inr two_beats_scaled \<and>
   np_min two_beats_scaled = 0 \<and> np_max two_beats_scaled = 1 \<and>
   np_max (eps_normalize two_beats_scaled) \<noteq> 1 \<and>
   extract_ppg_features [two_beats_scaled] 100 = Inr
     [[Val 0, Val 51, Val (51 / 60), Val (200000000 / 300000003),
       Val (200000000 / 14700000147), Val (100000000 / 100000001),
       Val (- (200000000 / 300000003)), Val 3, Val (1 / 100)]] \<and>
   extract_ppg_features [two_beats_scaled] 100
     \<noteq> Inr [morphology_values 100 two_beats_scaled [2, 52] [1, 51]]"
  unfolding scaled_two_beats two_beats_scaled_row two_beats_scaled_values by simp

text \<open>
  C5, amended.  For every non-empty waveform, \<^verbatim>\<open>extract_features\<close> rescales it once
  with MinMaxScaler before the four extractors run: the minimum becomes 0 and, when the
  range is at least ten machine epsilons, the result is \<open>(x - min) / (max - min)\<close> with
  maximum 1.  All four extractors receive that waveform.  The morphology extractor
  rescales it a second time internally with \<open>(x - min) / (max - min + 1e-8)\<close>, which is
  defined also for a constant waveform, gives minimum 0 and a maximum
  \<open>(max - min) / (max - min + 1e-8)\<close> below 1, and its values are computed from that
  second rescaling.
\<close>

theorem normalization_passes:
  assumes "sig \<noteq> []"
  shows "\<exists>col. MinMaxScaler_fit_transform sig = Inr col \<and>
           np_min col = 0 \<and>
           (10 * float_eps \<le> np_max sig - np_min sig \<longrightarrow>
              np_max col = 1 \<and>
              col = map (\<lambda>x. (x - np_min sig) / (np_max sig - np_min sig)) sig) \<and>
           extract_features env sig =
             e_bind (extract_time_domain_features env [col]) (\<lambda>tf.
             e_bind (extract_frequency_domain_features env [col] 100) (\<lambda>ff.
             e_bind (extract_ppg_specific_features [col] 100) (\<lambda>pf.
             e_bind (extract_ppg_features [col] 100) (\<lambda>wf.
             e_bind (np_hstack [tf, ff, pf, wf]) SimpleImputer_fit_transform)))) \<and>
           np_min (eps_normalize col) = 0 \<and>
           np_max (eps_normalize col)
             = (np_max col - np_min col) / (np_max col - np_min col + 1 / 10 ^ 8) \<and>
           np_max (eps_normalize col) < 1 \<and>
           (\<forall>peaks valleys fs.
              find_peaks col 50 = Inr peaks \<and> find_peaks (map uminus col) 50 = Inr valleys \<and>
              2 \<le> length peaks \<and> 2 \<le> length valleys \<longrightarrow>
              extract_ppg_features [col] fs
                = Inr [morphology_values fs (eps_normalize col) peaks valleys])"
proof -
  define col where "col = map (\<lambda>x. x * minmax_scale sig + minmax_min sig) sig"
  have sc: "MinMaxScaler_fit_transform sig = Inr col"
    using assms by (simp add: MinMaxScaler_Inr col_def)
  have ne: "col \<noteq> []" using assms by (simp add: col_def)
  have a: "np_min col = 0" using sc by (rule MinMaxScaler_min)
  have b: "np_max col = 1 \<and> col = map (\<lambda>x. (x - np_min sig) / (np_max sig - np_min sig)) sig"
    if r: "10 * float_eps \<le> np_max sig - np_min sig"
  proof -
    have "minmax_scale sig = 1 / (np_max sig - np_min sig)"
      using r by (simp add: minmax_scale_def handle_zeros_in_scale_def)
    then have "x * minmax_scale sig + minmax_min sig = (x - np_min sig) / (np_max sig - np_min sig)"
      for x by (simp add: minmax_min_def diff_divide_distrib)
    then have "col = map (\<lambda>x. (x - np_min sig) / (np_max sig - np_min sig)) sig"
      by (simp add: col_def)
    with MinMaxScaler_max[OF sc r] show ?thesis by simp
  qed
  have c: "extract_features env sig =
             e_bind (extract_time_domain_features env [col]) (\<lambda>tf.
             e_bind (extract_frequency_domain_features env [col] 100) (\<lambda>ff.
             e_bind (extract_ppg_specific_features [col] 100) (\<lambda>pf.
             e_bind (extract_ppg_features [col] 100) (\<lambda>wf.
             e_bind (np_hstack [tf, ff, pf, wf]) SimpleImputer_fit_transform))))"
    unfolding extract_features_def sc by (simp add: e_bind_def Let_def)
  have d: "extract_ppg_features [col] fs = Inr [morphology_values fs (eps_normalize col) peaks valleys]"
    if "find_peaks col 50 = Inr peaks" "find_peaks (map uminus col) 50 = Inr valleys"
      "2 \<le> length peaks" "2 \<le> length valleys" for peaks valleys fs
    using ppg_features_row_computed[OF ne that, of fs] by (simp add: extract_ppg_features_def)
  show ?thesis
    using sc a b c d eps_normalize_min[OF ne] eps_normalize_max[OF ne]
      eps_normalize_max_less_1[OF ne] by blast
qed

theorem normalization_passes_witness:
  "two_beats \<noteq> [] \<and> 10 * float_eps \<le> np_max two_beats - np_min two_beats \<and>
   MinMaxScaler_fit_transform two_beats = Inr two_beats_scaled \<and>
   np_min two_beats_scaled = 0 \<and> np_max two_beats_scaled = 1 \<and>
   two_beats_scaled = map (\<lambda>x. (x - np_min two_beats) / (np_max two_beats - np_min two_beats)) two_beats \<and>
   np_min (eps_normalize two_beats_scaled) = 0 \<and>
   np_max (eps_normalize two_beats_scaled) < 1 \<and>
   extract_ppg_features [two_beats_scaled] 100
     = Inr [morphology_values 100 (eps_normalize two_beats_scaled) [2, 52] [1, 51]]"
proof -
  have ne: "two_beats \<noteq> []" by (simp add: two_beats_def)
  have rng: "10 * float_eps \<le> np_max two_beats - np_min two_beats" by code_simp
  have pk: "find_peaks two_beats_scaled 50 = Inr [2, 52]"
    using find_peaks_MinMaxScaler[OF scaled_two_beats] find_peaks_two_beats by simp
  have vl: "find_peaks (map uminus two_beats_scaled) 50 = Inr [1, 51]"
    using find_valleys_MinMaxScaler[OF scaled_two_beats] find_valleys_two_beats by simp
  from normalization_passes[OF ne, of mock_kernels] obtain col where
    c: "MinMaxScaler_fit_transform two_beats = Inr col" "np_min col = 0"
       "10 * float_eps \<le> np_max two_beats - np_min two_beats \<longrightarrow>
          np_max col = 1 \<and>
          col = map (\<lambda>x. (x - np_min two_beats) / (np_max two_beats - np_min two_beats)) two_beats"
       "np_min (eps_normalize col) = 0" "np_max (eps_normalize col) < 1"
       "\<forall>peaks valleys fs.
          find_peaks col 50 = Inr peaks \<and> find_peaks (map uminus col) 50 = Inr valleys \<and>
          2 \<le> length peaks \<and> 2 \<le> length valleys \<longrightarrow>
          extract_ppg_features [col] fs
            = Inr [morphology_values fs (eps_normalize col) peaks valleys]"
    by blast
  from c(1) scaled_two_beats have col: "col = two_beats_scaled" by simp
  have "extract_ppg_features [two_beats_scaled] 100
        = Inr [morphology_values 100 (eps_normalize two_beats_scaled) [2, 52] [1, 51]]"
    using c(6) pk vl unfolding col by simp
  with ne rng c(1-5) show ?thesis unfolding col by blast
qed

text \<open>
  C6.  For a non-empty waveform in which peak detection at distance 50 finds fewer than
  two local maxima, and in particular for every strictly increasing or strictly
  decreasing waveform, the pulse-interval extractor returns the missing sentinel in
  both slots and the morphology extractor returns it in all nine, and neither raises.
\<close>

theorem few_peaks_missing:
  assumes "sig \<noteq> []" and "find_peaks sig 50 = Inr pks"
    and "length pks < 2 \<or> sorted_wrt (<) sig \<or> sorted_wrt (>) sig"
  shows "length pks < 2 \<and>
         extract_ppg_specific_features [sig] 100 = Inr [[NaN, NaN]] \<and>
         extract_ppg_features [sig] 100 = Inr [replicate 9 NaN]"
proof -
  have few: "length pks < 2"
  proof (cases "length pks < 2")
    case True
    then show ?thesis .
  next
    case False
    with assms(3) have "sorted_wrt (<) sig \<or> sorted_wrt (>) sig" by simp
    then have "find_peaks sig 50 = Inr []" by (intro find_peaks_monotone) simp_all
    with assms(2) show ?thesis by simp
  qed
  have "ppg_specific_row 100 sig = Inr [NaN, NaN]"
    using assms(2) few py_int_half_100 by (simp add: ppg_specific_row_def)
  moreover obtain valleys where "find_peaks (map uminus sig) 50 = Inr valleys"
    using find_peaks_Inr[of 50] by auto
  then have "ppg_features_row 100 sig = Inr (replicate 9 NaN)"
    using assms(1,2) few by (intro ppg_features_row_missing) auto
  ultimately show ?thesis
    using few by (simp add: extract_ppg_specific_features_def extract_ppg_features_def)
qed

theorem few_peaks_missing_witness:
  "ramp22 \<noteq> [] \<and> find_peaks ramp22 50 = Inr [] \<and> sorted_wrt (<) ramp22 \<and>
   extract_ppg_specific_features [ramp22] 100 = Inr [[NaN, NaN]] \<and>
   extract_ppg_features [ramp22] 100 = Inr [replicate 9 NaN]"
proof -
  have ne: "ramp22 \<noteq> []" by (simp add: ramp22_def)
  have mono: "length ([] :: nat list) < 2 \<or> sorted_wrt (<) ramp22 \<or> sorted_wrt (>) ramp22"
    using ramp22_increasing by simp
  show ?thesis
    using ne find_peaks_ramp22 ramp22_increasing few_peaks_missing[OF ne find_peaks_ramp22 mono]
    by simp
qed

text \<open>
  C7.  As stated the claim fails: it asks for a failure of one kind (invalid input) for
  an empty waveform and of another kind (model unavailable) when a model is missing,
  but line 627 tests both in one condition and line 628 gives one answer.  The request
  with an empty waveform served with both models loaded, and the request with the
  22-sample ramp (which is answered with a prediction when the models are loaded)
  served with no model loaded, receive the identical answer, so nothing in the answer
  tells the two failures apart.
\<close>

theorem predict_failure_kind_counterexample:
  "predict mock_kernels (Inr (json_request [] 50))
     = Inr (Err 400 ''Invalid input or models not loaded'') \<and>
   predict mock_kernels (Inr (json_request ramp22 50))
     = Inr (Ok200 \<lparr>sbp = 120, dbp = 80, filtered = tolist (map (\<lambda>v. 9 / 100 * v) ramp22)\<rparr>) \<and>
   predict (mock_kernels\<lparr>model_sbp := None, model_dbp := None\<rparr>) (Inr (json_request ramp22 50))
     = Inr (Err 400 ''Invalid input or models not loaded'') \<and>
   predict mock_kernels (Inr (json_request [] 50))
     = predict (mock_kernels\<lparr>model_sbp := None, model_dbp := None\<rparr>) (Inr (json_request ramp22 50))"
  by (simp add: predict_request_without_models predict_mock_ramp22)

text \<open>
  C7, amended.  A request whose body is a JSON object with an empty or absent waveform
  (or any other \<^verbatim>\<open>ppg\<close> that Python counts as false) is answered with the client error
  (status 400, "Invalid input or models not loaded") and does not crash, and a request
  whose body is a JSON object is answered with the same client error whenever either
  model is unavailable, whatever the waveform, the sample rate and the other kernels
  are: the answer is fixed before the filter or an extractor could contribute or fail.
  The route uses this one answer for both causes, and for nothing else.
\<close>

theorem predict_fail_fast:
  "(py_not (dict_get kv ''ppg'' (JArr [])) \<longrightarrow>
      predict env (Inr (JObj kv)) = Inr (Err 400 ''Invalid input or models not loaded'')) \<and>
   predict env (Inr (json_request [] fs)) = Inr (Err 400 ''Invalid input or models not loaded'') \<and>
   (model_sbp env = None \<or> model_dbp env = None \<longrightarrow>
      predict env (Inr (JObj kv)) = Inr (Err 400 ''Invalid input or models not loaded'')) \<and>
   ((\<exists>m. predict env (Inr (JObj kv)) = Inr (Err 400 m)) \<longrightarrow>
      py_not (dict_get kv ''ppg'' (JArr [])) \<or> model_sbp env = None \<or> model_dbp env = None)"
proof -
  have "py_not (dict_get kv ''ppg'' (JArr [])) \<or> model_sbp env = None \<or> model_dbp env = None"
    if "predict env (Inr (JObj kv)) = Inr (Err 400 m)" for m
  proof (rule ccontr)
    assume "\<not> (py_not (dict_get kv ''ppg'' (JArr [])) \<or> model_sbp env = None \<or>
                model_dbp env = None)"
    then obtain ms md where g: "\<not> py_not (dict_get kv ''ppg'' (JArr []))"
      "model_sbp env = Some ms" "model_dbp env = Some md" by auto
    from that show False
      unfolding predict_with_models[OF g] by (simp split: sum.splits)
  qed
  then show ?thesis
    by (auto simp: predict_without_models predict_request_without_models)
qed

theorem predict_fail_fast_witness:
  "predict mock_kernels (Inr (json_request [] 100))
     = Inr (Err 400 ''Invalid input or models not loaded'') \<and>
   predict mock_kernels (Inr (JObj []))
     = Inr (Err 400 ''Invalid input or models not loaded'') \<and>
   predict mock_kernels (Inr (JObj [(''ppg'', JNull), (''fs'', JInt 100)]))
     = Inr (Err 400 ''Invalid input or models not loaded'') \<and>
   predict (mock_kernels\<lparr>model_sbp := None, model_dbp := None\<rparr>) (Inr (json_request ramp22 100))
     = Inr (Err 400 ''Invalid input or models not loaded'') \<and>
   predict (mock_kernels\<lparr>model_dbp := None\<rparr>) (Inr (json_request [1, 2, 3] 0))
     = Inr (Err 400 ''Invalid input or models not loaded'')"
  using predict_fail_fast[of "[]" mock_kernels 100]
    predict_fail_fast[of "[(''ppg'', JNull), (''fs'', JInt 100)]" mock_kernels 100]
    predict_fail_fast[of "[(''ppg'', JArr (map JFloat ramp22)), (''fs'', JInt 100)]"
      "mock_kernels\<lparr>model_sbp := None, model_dbp := None\<rparr>" 100]
    predict_fail_fast[of "[(''ppg'', JArr (map JFloat [1, 2, 3])), (''fs'', JInt 0)]"
      "mock_kernels\<lparr>model_dbp := None\<rparr>" 100]
  by (simp add: dict_get_def json_request_def)

text \<open>
  C8.  The claim holds for every request whose body is a JSON object, and fails for
  every request whose body is another JSON value (a list, a string, a number, \<^verbatim>\<open>true\<close>,
  \<^verbatim>\<open>false\<close> or \<^verbatim>\<open>null\<close>): \<^verbatim>\<open>request.json.get\<close> on line 624 raises AttributeError
  before the \<^verbatim>\<open>try\<close> of line 630 is entered, the exception leaves the view and the
  route gives no answer of its own.  An exception of \<^verbatim>\<open>request.json\<close> itself (a body
  that is not JSON) leaves the view likewise.  When the body is a JSON object, the
  route answers with the client error, with the error answer (status 500) carrying the
  message of an exception, or with a result that carries sbp, dbp and the filtered
  waveform together.
  Once the waveform is a non-empty list of numbers, the sample rate an integer and both
  models are present, the answer is determined stage by stage: an exception of the
  filter, of feature extraction or of either model becomes the error answer with its
  message, and only when all four stages succeed is the answer a result.
\<close>

theorem predict_outcomes:
  "predict env (Inl exn) = Inl exn \<and>
   ((\<forall>items. body \<noteq> JObj items) \<longrightarrow>
      predict env (Inr body)
        = Inl (AttributeError (quoted (py_type body) @ '' object has no attribute '' @ quoted ''get''))) \<and>
   (\<exists>r. predict env (Inr (JObj kv)) = Inr r \<and>
      (r = Err 400 ''Invalid input or models not loaded'' \<or>
       (\<exists>e. r = Err 500 (exn_str e)) \<or>
       (\<exists>p. r = Ok200 p))) \<and>
   (typed_fields (dict_get kv ''ppg'' (JArr [])) (dict_get kv ''fs'' (JInt 100)) = Some (arr, f) \<and>
    arr \<noteq> [] \<and> model_sbp env = Some m_sbp \<and> model_dbp env = Some m_dbp \<longrightarrow>
     (case butter_bandpass_filter env arr (1 / 2) 8 f 3 of
        Inl e \<Rightarrow> predict env (Inr (JObj kv)) = Inr (Err 500 (exn_str e))
      | Inr filt \<Rightarrow>
          (case extract_features env filt of
             Inl e \<Rightarrow> predict env (Inr (JObj kv)) = Inr (Err 500 (exn_str e))
           | Inr X \<Rightarrow>
               (case m_sbp X of
                  Inl e \<Rightarrow> predict env (Inr (JObj kv)) = Inr (Err 500 (exn_str e))
                | Inr s \<Rightarrow>
                    (case m_dbp X of
                       Inl e \<Rightarrow> predict env (Inr (JObj kv)) = Inr (Err 500 (exn_str e))
                     | Inr d \<Rightarrow>
                         predict env (Inr (JObj kv))
                           = Inr (Ok200 \<lparr>sbp = py_round1 s, dbp = py_round1 d,
                                         filtered = tolist filt\<rparr>))))))"
proof -
  have staged:
    "(case butter_bandpass_filter env arr (1 / 2) 8 f 3 of
        Inl e \<Rightarrow> predict env (Inr (JObj kv)) = Inr (Err 500 (exn_str e))
      | Inr filt \<Rightarrow>
          (case extract_features env filt of
             Inl e \<Rightarrow> predict env (Inr (JObj kv)) = Inr (Err 500 (exn_str e))
           | Inr X \<Rightarrow>
               (case ms X of
                  Inl e \<Rightarrow> predict env (Inr (JObj kv)) = Inr (Err 500 (exn_str e))
                | Inr s \<Rightarrow>
                    (case md X of
                       Inl e \<Rightarrow> predict env (Inr (JObj kv)) = Inr (Err 500 (exn_str e))
                     | Inr d \<Rightarrow>
                         predict env (Inr (JObj kv))
                           = Inr (Ok200 \<lparr>sbp = py_round1 s, dbp = py_round1 d,
                                         filtered = tolist filt\<rparr>)))))"
    if "typed_fields (dict_get kv ''ppg'' (JArr [])) (dict_get kv ''fs'' (JInt 100)) = Some (arr, f)"
      "arr \<noteq> []" "model_sbp env = Some ms" "model_dbp env = Some md" for ms md
    unfolding predict_typed[OF that] predict_try_def
    by (simp add: e_bind_def split: sum.splits)
  have three: "\<exists>r. predict env (Inr (JObj kv)) = Inr r \<and>
      (r = Err 400 ''Invalid input or models not loaded'' \<or>
       (\<exists>e. r = Err 500 (exn_str e)) \<or>
       (\<exists>p. r = Ok200 p))"
  proof (cases "py_not (dict_get kv ''ppg'' (JArr [])) \<or> model_sbp env = None \<or>
                model_dbp env = None")
    case True
    from predict_without_models[OF this] show ?thesis by simp
  next
    case False
    then obtain ms md where g: "\<not> py_not (dict_get kv ''ppg'' (JArr []))"
      "model_sbp env = Some ms" "model_dbp env = Some md" by auto
    show ?thesis
      unfolding predict_with_models[OF g] by (auto split: sum.splits)
  qed
  from three staged predict_not_object[of body env] predict_request_raises[of env exn]
  show ?thesis by blast
qed

theorem predict_outcomes_witness:
  "predict mock_kernels (Inr (JArr [JInt 1, JInt 2, JInt 3]))
     = Inl (AttributeError (quoted ''list'' @ '' object has no attribute '' @ quoted ''get'')) \<and>
   predict mock_kernels (Inr JNull)
     = Inl (AttributeError (quoted ''NoneType'' @ '' object has no attribute '' @ quoted ''get'')) \<and>
   predict mock_kernels (Inr (json_request [1, 2, 3] 100))
     = Inr (Err 500 ''The length of the input vector x must be greater than padlen, which is 21.'') \<and>
   predict (mock_kernels\<lparr>model_dbp := Some (\<lambda>X. Inl (ModelError ''the stand-in regressor fails''))\<rparr>)
       (Inr (json_request ramp22 50))
     = Inr (Err 500 ''the stand-in regressor fails'') \<and>
   predict mock_kernels (Inr (json_request ramp22 50))
     = Inr (Ok200 \<lparr>sbp = 120, dbp = 80, filtered = tolist (map (\<lambda>v. 9 / 100 * v) ramp22)\<rparr>)"
proof -
  let ?bad = "mock_kernels\<lparr>model_dbp := Some (\<lambda>X. Inl (ModelError ''the stand-in regressor fails''))\<rparr>"
  have r0: "predict mock_kernels (Inr (JArr [JInt 1, JInt 2, JInt 3]))
            = Inl (AttributeError (quoted ''list'' @ '' object has no attribute '' @ quoted ''get''))"
    using predict_outcomes[where env = mock_kernels and body = "JArr [JInt 1, JInt 2, JInt 3]"]
    by simp
  have r0': "predict mock_kernels (Inr JNull)
             = Inl (AttributeError (quoted ''NoneType'' @ '' object has no attribute '' @ quoted ''get''))"
    using predict_outcomes[where env = mock_kernels and body = JNull] by simp
  have typed: "typed_fields (dict_get [(''ppg'', JArr (map JFloat d)), (''fs'', JInt n)] ''ppg'' (JArr []))
                 (dict_get [(''ppg'', JArr (map JFloat d)), (''fs'', JInt n)] ''fs'' (JInt 100))
               = Some (d, n)" for d n
    by (simp add: json_request_fields json_request_typed)
  have short: "butter_bandpass_filter mock_kernels [1, 2, 3] (1 / 2) 8 100 3
               = Inl (ValueError ''The length of the input vector x must be greater than padlen, which is 21.'')"
    by (simp add: butter_bandpass_filter_def butter_def mock_kernels_def filtfilt_short)
  have m: "model_sbp mock_kernels = Some (\<lambda>X. Inr 120)" "model_dbp mock_kernels = Some (\<lambda>X. Inr 80)"
    by (simp_all add: mock_kernels_def)
  have ne3: "[1, 2, 3 :: real] \<noteq> []" by simp
  have r1: "predict mock_kernels (Inr (json_request [1, 2, 3] 100))
            = Inr (Err 500 ''The length of the input vector x must be greater than padlen, which is 21.'')"
    using predict_outcomes[where env = mock_kernels
        and kv = "[(''ppg'', JArr (map JFloat [1, 2, 3])), (''fs'', JInt 100)]"
        and arr = "[1, 2, 3]" and f = 100
        and m_sbp = "\<lambda>X. Inr 120" and m_dbp = "\<lambda>X. Inr 80"]
      typed[of "[1, 2, 3]" 100] m ne3 short
    unfolding json_request_def by simp
  have ne: "map (\<lambda>v. 9 / 100 * v) ramp22 \<noteq> []" by (simp add: ramp22_def)
  from mock_extract_features[OF ne] obtain X where
    X: "extract_features mock_kernels (map (\<lambda>v. 9 / 100 * v) ramp22) = Inr X" by blast
  have round: "py_round1 120 = 120" "py_round1 80 = 80"
    by (simp_all add: py_round1_def round_half_even_def)
  have data: "ramp22 \<noteq> []" by (simp add: ramp22_def)
  have r3: "predict mock_kernels (Inr (json_request ramp22 50))
            = Inr (Ok200 \<lparr>sbp = 120, dbp = 80, filtered = tolist (map (\<lambda>v. 9 / 100 * v) ramp22)\<rparr>)"
    using predict_outcomes[where env = mock_kernels
        and kv = "[(''ppg'', JArr (map JFloat ramp22)), (''fs'', JInt 50)]"
        and arr = ramp22 and f = 50
        and m_sbp = "\<lambda>X. Inr 120" and m_dbp = "\<lambda>X. Inr 80"]
      typed[of ramp22 50] m data mock_filter_50 X round
    unfolding json_request_def by simp
  have same: "butter_bandpass_filter ?bad ramp22 (1 / 2) 8 50 3
              = butter_bandpass_filter mock_kernels ramp22 (1 / 2) 8 50 3"
    by (simp add: butter_bandpass_filter_def butter_def filtfilt_def Let_def cong: if_cong)
  have t: "time_domain_row ?bad = time_domain_row mock_kernels"
    by (intro ext) (simp add: time_domain_row_def Let_def cong: if_cong)
  have f: "frequency_domain_row ?bad = frequency_domain_row mock_kernels"
    by (intro ext) (simp add: frequency_domain_row_def)
  have same_features: "extract_features ?bad sig = extract_features mock_kernels sig" for sig
    unfolding extract_features_def extract_time_domain_features_def
      extract_frequency_domain_features_def t f ..
  have r2: "predict ?bad (Inr (json_request ramp22 50)) = Inr (Err 500 ''the stand-in regressor fails'')"
  proof -
    have m': "model_sbp ?bad = Some (\<lambda>X. Inr 120)"
      "model_dbp ?bad = Some (\<lambda>X. Inl (ModelError ''the stand-in regressor fails''))"
      by (simp_all add: mock_kernels_def)
    show ?thesis
      using predict_outcomes[where env = ?bad
          and kv = "[(''ppg'', JArr (map JFloat ramp22)), (''fs'', JInt 50)]"
          and arr = ramp22 and f = 50
          and m_sbp = "\<lambda>X. Inr 120" and m_dbp = "\<lambda>X. Inl (ModelError ''the stand-in regressor fails'')"]
        typed[of ramp22 50] m' data mock_filter_50 X
      unfolding json_request_def by (simp add: same same_features)
  qed
  from r0 r0' r1 r2 r3 show ?thesis by blast
qed

text \<open>
  C9.  For a waveform with at least two detected peaks and two detected valleys, the landmarks satisfy \<open>T4 = - T1\<close> and \<open>T5 = T1\<close>, \<open>T2\<close> is the span from the
  first peak to the second valley (and \<open>T1\<close> if there were no second valley), and the
  morphology extractor returns, in this order, ETR = (T4+T5)/(T1+T2+T3) or the missing
  sentinel when that denominator is 0, then BD, HR, SVC, DVC, SMVC, DMVC, PWIR and PWAT,
  all amplitudes being read from the waveform as rescaled inside the extractor.
\<close>

theorem morphology_block:
  assumes "find_peaks sig 50 = Inr peaks"
    and "find_peaks (map uminus sig) 50 = Inr valleys"
    and "2 \<le> length peaks" and "2 \<le> length valleys"
  shows
    "(let s = eps_normalize sig;
          Pp = s ! (peaks ! 0); Pv = s ! (valleys ! 0);
          T1 = fid_T1 peaks valleys; T2 = fid_T2 peaks valleys; T3 = fid_T3 peaks valleys;
          T4 = fid_T4 peaks valleys; T5 = fid_T5 peaks valleys
      in T1 = int (peaks ! 0) - int (valleys ! 0) \<and>
         T2 = (if 1 < length valleys then int (valleys ! 1) - int (peaks ! 0) else T1) \<and>
         T4 = - T1 \<and> T5 = T1 \<and>
         extract_ppg_features [sig] fs = Inr
           [[if T1 + T2 + T3 \<noteq> 0
             then Val (real_of_int (T4 + T5) / real_of_int (T1 + T2 + T3)) else NaN,
             Val (real_of_int (T1 + T2 + T3)),
             Val (real_of_int (T1 + T2 + T3) / 60),
             if T1 \<noteq> 0 then Val ((Pp - Pv) / real_of_int T1) else NaN,
             if T2 \<noteq> 0 then Val ((Pp - Pv) / real_of_int T2) else NaN,
             Val (np_max (np_diff s)),
             Val (np_min (np_diff s)),
             if Pv \<noteq> 0 then Val (Pp / Pv) else NaN,
             np_divide_int T1 fs]])"
proof -
  have "peaks \<noteq> []" using assms(3) by auto
  from find_peaks_length[OF assms(1) this] have "sig \<noteq> []" by auto
  then have "ppg_features_row fs sig
             = Inr (morphology_values fs (eps_normalize sig) peaks valleys)"
    using assms by (rule ppg_features_row_computed)
  then show ?thesis
    by (simp add: extract_ppg_features_def morphology_values_def Let_def
        fid_T1_def fid_T2_def fid_T4_def fid_T5_def)
qed

theorem morphology_block_witness:
  "two_beats \<noteq> [] \<and> find_peaks two_beats 50 = Inr [2, 52] \<and>
   find_peaks (map uminus two_beats) 50 = Inr [1, 51] \<and>
   fid_T4 [2, 52] [1, 51] = - 1 \<and> fid_T5 [2, 52] [1, 51] = 1 \<and>
   extract_ppg_features [two_beats] 100 = Inr
     [[Val 0, Val 51, Val (51 / 60), Val (200000000 / 300000001),
       Val (200000000 / 300000001 / 49), Val (300000000 / 300000001),
       Val (- (200000000 / 300000001)), Val 3, Val (1 / 100)]]"
proof -
  have ne: "two_beats \<noteq> []" by (simp add: two_beats_def)
  have l1: "2 \<le> length [2, 52 :: nat]" and l2: "2 \<le> length [1, 51 :: nat]" by simp_all
  show ?thesis
    using ne find_peaks_two_beats find_valleys_two_beats
      morphology_block[OF find_peaks_two_beats find_valleys_two_beats l1 l2, of 100]
    by (simp add: Let_def fid_T1_def fid_T2_def fid_T3_def fid_T4_def fid_T5_def
        np_divide_int_def two_beats_normalized)
qed

text \<open>
  C10.  Whenever the morphology block is computed (at least two peaks and two valleys)
  and \<open>T1 + T2 + T3\<close> is not 0, the first slot, ETR, is exactly 0: \<open>T4\<close> and \<open>T5\<close> are
  the two orientations of one span and cancel.
\<close>

theorem ejection_ratio_zero:
  assumes "find_peaks sig 50 = Inr peaks"
    and "find_peaks (map uminus sig) 50 = Inr valleys"
    and "2 \<le> length peaks" and "2 \<le> length valleys"
    and "fid_T1 peaks valleys + fid_T2 peaks valleys + fid_T3 peaks valleys \<noteq> 0"
  shows "fid_T4 peaks valleys + fid_T5 peaks valleys = 0 \<and>
         (\<exists>rest. extract_ppg_features [sig] fs = Inr [Val 0 # rest] \<and> length rest = 8)"
proof -
  have "peaks \<noteq> []" using assms(3) by auto
  from find_peaks_length[OF assms(1) this] have "sig \<noteq> []" by auto
  then have "ppg_features_row fs sig
             = Inr (morphology_values fs (eps_normalize sig) peaks valleys)"
    using assms(1-4) by (rule ppg_features_row_computed)
  moreover have "fid_T4 peaks valleys + fid_T5 peaks valleys = 0"
    by (simp add: fid_T4_def fid_T5_def)
  ultimately show ?thesis
    using assms(5) by (simp add: extract_ppg_features_def morphology_values_def Let_def)
qed

theorem ejection_ratio_zero_witness:
  "fid_T1 [2, 52] [1, 51] + fid_T2 [2, 52] [1, 51] + fid_T3 [2, 52] [1, 51] = 51 \<and>
   (\<exists>rest. extract_ppg_features [two_beats] 100 = Inr [Val 0 # rest] \<and> length rest = 8)"
proof -
  have ne: "two_beats \<noteq> []" by (simp add: two_beats_def)
  have l1: "2 \<le> length [2, 52 :: nat]" and l2: "2 \<le> length [1, 51 :: nat]" by simp_all
  have nz: "fid_T1 [2, 52] [1, 51] + fid_T2 [2, 52] [1, 51] + fid_T3 [2, 52] [1, 51] \<noteq> 0"
    by (simp add: fid_T1_def fid_T2_def fid_T3_def)
  show ?thesis
    using ejection_ratio_zero[OF find_peaks_two_beats find_valleys_two_beats l1 l2 nz, of 100]
    by (simp add: fid_T1_def fid_T2_def fid_T3_def)
qed

end
